theory Spec2Isabelle
  imports Complex_Main "HOL-Library.AList"
begin

section \<open>Linear to Notion synchronisation: a shallow embedding of sync-linear-to-notion.js\<close>

text \<open>
  The development follows \<^verbatim>\<open>src/sync-linear-to-notion.js\<close>. A JavaScript string is a
  list of characters, and a JavaScript number is a real, NaN or an infinity. The built-in
  operations whose result depends on the character set or on the number format,
  \<open>String.prototype.trim\<close>, \<open>String.prototype.toLowerCase\<close> and the conversion
  \<open>String(n)\<close> of a number, are not implemented here: they are the fields of a record
  \<open>runtime\<close>, which every function that calls them takes as a parameter, and the
  theorems hold for every runtime.
\<close>

subsection \<open>JavaScript values and the built-ins\<close>

datatype number = Finite real | NaN | Infinity bool   \<comment> \<open>the sign of an infinity: positive\<close>

datatype jsval =
    JNull                     \<comment> \<open>null or undefined\<close>
  | JStr string
  | JNum number
  | JBool bool
  | JObj "string option"      \<comment> \<open>an object; its \<open>name\<close> property when that is a string\<close>

record runtime =
  toLowerCase :: "string \<Rightarrow> string"   \<comment> \<open>\<open>s.toLowerCase()\<close>\<close>
  trim :: "string \<Rightarrow> string"          \<comment> \<open>\<open>s.trim()\<close>\<close>
  String :: "number \<Rightarrow> string"        \<comment> \<open>\<open>String(n)\<close> for a number \<open>n\<close>\<close>

definition digit_char :: "nat \<Rightarrow> char" where
  "digit_char d = char_of (48 + d)"

function string_of_nat :: "nat \<Rightarrow> string" where
  "string_of_nat n =
     (if n < 10 then [digit_char n] else string_of_nat (n div 10) @ [digit_char (n mod 10)])"
  by pat_completeness auto
termination
  by (relation "measure (\<lambda>n. n)") auto

declare string_of_nat.simps [simp del]

text \<open>
  The status of a response inside a template literal is a natural number below 1000,
  printed in decimal by \<open>string_of_nat\<close>.
\<close>

subsection \<open>Normalisation helpers (lines 15 to 38)\<close>

definition normalizeOptionName :: "runtime \<Rightarrow> jsval \<Rightarrow> string option" where
  "normalizeOptionName rt v =
     (case v of
        JNull \<Rightarrow> None
      | JStr s \<Rightarrow> (let t = trim rt s in if length t \<noteq> 0 then Some t else None)
      | JNum n \<Rightarrow> Some (String rt n)
      | JObj nm \<Rightarrow>
          (case nm of
             Some s \<Rightarrow> if trim rt s \<noteq> [] then Some (trim rt s) else None
           | None \<Rightarrow> None)
      | JBool b \<Rightarrow> None)"

text \<open>
  The object \<open>map\<close> of line 34 read at the key \<open>p\<close>: the keys are the numbers 0 to 5
  (a negative zero reads the key 0, and the reals have one zero).
\<close>

definition priority_map :: "number \<Rightarrow> string option" where
  "priority_map p =
     (if p = Finite 5 then Some ''Very Low''
      else if p = Finite 4 then Some ''Low''
      else if p = Finite 3 then Some ''Medium''
      else if p = Finite 2 then Some ''High''
      else if p = Finite 1 then Some ''Urgent''
      else if p = Finite 0 then Some ''None''
      else None)"

definition mapPriorityToText :: "runtime \<Rightarrow> jsval \<Rightarrow> string option" where
  "mapPriorityToText rt p =
     (case p of
        JNull \<Rightarrow> None
      | JStr s \<Rightarrow> (if trim rt s \<noteq> [] then Some (trim rt s) else None)
      | JNum n \<Rightarrow> (case priority_map n of Some t \<Rightarrow> Some t | None \<Rightarrow> Some (String rt n))
      | JBool b \<Rightarrow> None
      | JObj nm \<Rightarrow> None)"

subsection \<open>Description chunking (lines 41 to 50)\<close>

definition MAX_chunk :: nat where
  "MAX_chunk = 1900"

text \<open>\<open>s.slice(i, j)\<close> for \<open>0 \<le> i \<le> j\<close>: the end is clamped to the length.\<close>

definition slice :: "'a list \<Rightarrow> nat \<Rightarrow> nat \<Rightarrow> 'a list" where
  "slice s i j = take (j - i) (drop i s)"

function chunk_loop :: "string \<Rightarrow> nat \<Rightarrow> string list \<Rightarrow> string list" where
  "chunk_loop s i chunks =
     (if i < length s then chunk_loop s (i + MAX_chunk) (chunks @ [slice s i (i + MAX_chunk)])
      else chunks)"
  by pat_completeness auto
termination
  by (relation "measure (\<lambda>(s, i, chunks). length s - i)") (auto simp: MAX_chunk_def)

declare chunk_loop.simps [simp del]

text \<open>
  A chunk \<open>{type: "text", text: {content: c}}\<close> is modelled by its content \<open>c\<close>. The
  argument is the description as the feed delivers it: \<open>None\<close> is null or undefined.
\<close>

definition toRichTextArray :: "string option \<Rightarrow> string list" where
  "toRichTextArray str =
     (case str of
        None \<Rightarrow> []
      | Some s \<Rightarrow> if s = [] then [] else chunk_loop s 0 [])"

subsection \<open>Label mapping (lines 266 to 278)\<close>

definition MODULE_LABELS :: "string list" where
  "MODULE_LABELS = [''Planning'', ''Procurement'', ''Post-bunkering'']"

definition SUBAREA_LABELS :: "string list" where
  "SUBAREA_LABELS = [''Planning'', ''Lab'', ''Approval'']"

definition TYPE_LABELS :: "string list" where
  "TYPE_LABELS = [''Features'', ''Bug'', ''Chore'']"

definition pickFirst :: "runtime \<Rightarrow> string list \<Rightarrow> string list \<Rightarrow> string option" where
  "pickFirst rt labels cands =
     find (\<lambda>l. list_ex (\<lambda>c. toLowerCase rt c = toLowerCase rt l) cands) labels"

text \<open>\<open>x || d\<close> for \<open>x\<close> a string or undefined: the empty string is falsy.\<close>

definition or_else :: "string option \<Rightarrow> string \<Rightarrow> string" where
  "or_else x d = (case x of None \<Rightarrow> d | Some s \<Rightarrow> if s = [] then d else s)"

record extras =
  moduleVal :: string
  subareaVal :: string
  typeVal :: string
  cycleVal :: string

definition mapExtras :: "runtime \<Rightarrow> string list \<Rightarrow> string \<Rightarrow> extras" where
  "mapExtras rt labels cycleName =
     \<lparr> moduleVal = or_else (pickFirst rt labels MODULE_LABELS) [],
       subareaVal = or_else (pickFirst rt labels SUBAREA_LABELS) [],
       typeVal = or_else (pickFirst rt labels TYPE_LABELS)
                   (if ''Features'' \<in> set labels then ''Features'' else []),
       cycleVal = or_else (Some cycleName) [] \<rparr>"

subsection \<open>The upstream record and the run summary\<close>

text \<open>
  A node of the feed (lines 101 to 113). \<open>None\<close> is null or undefined;
  \<open>label_nodes\<close> is \<open>issue.labels?.nodes || []\<close>, each entry the node's \<open>name\<close>.
\<close>

record issue =
  issue_identifier :: string  \<comment> \<open>the field \<open>identifier\<close>\<close>
  title :: "string option"
  url :: string
  priority :: jsval
  dueDate :: "string option"
  state_name :: "string option"
  label_nodes :: "string option list"
  cycle_name :: "string option"
  description :: "string option"

record summary =
  processed :: nat
  created :: nat
  updated :: nat
  skippedNoLabel :: nat
  errors :: nat
  items :: "string list"

subsection \<open>The destination store and its HTTP interface\<close>

datatype prop_value =
    Title string
  | RichText "string list"
  | Url string
  | Select string
  | Date string "string option"

type_synonym props = "(string \<times> prop_value) list"

text \<open>A paragraph block built by \<open>makeLine(label, value, bold)\<close>.\<close>

record block =
  line_label :: string
  line_value :: string
  line_bold :: bool

record page =
  page_props :: props
  page_children :: "block list"

text \<open>A property of the database: its \<open>type\<close> and the option names under that type key.\<close>

record property =
  ptype :: string
  poptions :: "string list"

type_synonym database = "(string \<times> property) list"

text \<open>
  The six requests the program sends to the destination. A page is referred to by its
  position in the store (pages are never deleted); \<open>None\<close> is an undefined page id.
\<close>

datatype request =
    GetDatabase
  | PatchDatabase string string "string list"
  | QueryDatabase string
  | CreatePage props
  | PatchPage "nat option" props
  | AppendChildren "nat option" "block list"

datatype body = BDatabase database | BResults "nat list" | BPage nat | BOther

record response =
  status :: nat
  err_text :: string
  json :: body

datatype error = Error string

text \<open>
  What the program does to the outside, in order: a request sent to the destination, or
  a call \<open>sleep(ms)\<close>, recorded with its delay in milliseconds.
\<close>

datatype event = Sent request | Slept nat

text \<open>
  The state: the destination's schema and pages, the trace of the requests and delays
  so far, and the program's two module-level variables \<open>dbSchemaCache\<close> and
  \<open>summary\<close>.
\<close>

record world =
  db_properties :: database
  db_pages :: "page list"
  trace :: "event list"
  dbSchemaCache :: "database option"
  summary :: summary

fun requests_of :: "event list \<Rightarrow> request list" where
  "requests_of [] = []"
| "requests_of (Sent req # es) = req # requests_of es"
| "requests_of (Slept ms # es) = requests_of es"

text \<open>The requests sent so far, in order.\<close>

definition requests :: "world \<Rightarrow> request list" where
  "requests w = requests_of (trace w)"

definition sleep :: "nat \<Rightarrow> world \<Rightarrow> world" where
  "sleep ms w = w\<lparr>trace := trace w @ [Slept ms]\<rparr>"

text \<open>
  The environment of a run: the built-ins, the configured label, the status and text
  with which the destination answers its \<open>k\<close>-th request, and the clock read after
  \<open>k\<close> events.
\<close>

record env =
  js :: runtime
  REQUIRED_LABEL :: string
  respond :: "nat \<Rightarrow> nat \<times> string"
  clock :: "nat \<Rightarrow> string"

definition linear_issue_id :: "page \<Rightarrow> string option" where
  "linear_issue_id p =
     (case map_of (page_props p) ''Linear Issue ID'' of
        Some (RichText cs) \<Rightarrow> Some (concat cs)
      | _ \<Rightarrow> None)"

definition matching_pages :: "string \<Rightarrow> page list \<Rightarrow> nat list" where
  "matching_pages ident ps =
     filter (\<lambda>i. linear_issue_id (ps ! i) = Some ident) [0..<length ps]"

text \<open>
  The destination's side of a request it answers with success (the interface of the
  page-database store): the body it returns and its new state.
\<close>

definition serve :: "request \<Rightarrow> world \<Rightarrow> body \<times> world" where
  "serve req w =
     (case req of
        GetDatabase \<Rightarrow> (BDatabase (db_properties w), w)
      | PatchDatabase pname tkey opts \<Rightarrow>
          (let db = AList.update pname \<lparr>ptype = tkey, poptions = opts\<rparr> (db_properties w)
           in (BDatabase db, w\<lparr>db_properties := db\<rparr>))
      | QueryDatabase ident \<Rightarrow> (BResults (take 1 (matching_pages ident (db_pages w))), w)
      | CreatePage ps \<Rightarrow>
          (BPage (length (db_pages w)),
           w\<lparr>db_pages := db_pages w @ [\<lparr>page_props = ps, page_children = []\<rparr>]\<rparr>)
      | PatchPage ref ps \<Rightarrow>
          (case ref of
             Some i \<Rightarrow>
               if i < length (db_pages w) then
                 (let p = db_pages w ! i
                  in (BPage i,
                      w\<lparr>db_pages := (db_pages w)[i := p\<lparr>page_props := AList.merge (page_props p) ps\<rparr>]\<rparr>))
               else (BOther, w)
           | None \<Rightarrow> (BOther, w))
      | AppendChildren ref bs \<Rightarrow>
          (case ref of
             Some i \<Rightarrow>
               if i < length (db_pages w) then
                 (let p = db_pages w ! i
                  in (BOther,
                      w\<lparr>db_pages := (db_pages w)[i := p\<lparr>page_children := page_children p @ bs\<rparr>]\<rparr>))
               else (BOther, w)
           | None \<Rightarrow> (BOther, w)))"

definition ok :: "response \<Rightarrow> bool" where
  "ok r = (200 \<le> status r \<and> status r \<le> 299)"

text \<open>
  One HTTP exchange with the destination: the request is recorded, and takes effect
  only when the answer is a success.
\<close>

definition fetch :: "env \<Rightarrow> request \<Rightarrow> world \<Rightarrow> response \<times> world" where
  "fetch env req w =
     (let (st, txt) = respond env (length (requests w));
          w1 = w\<lparr>trace := trace w @ [Sent req]\<rparr>
      in if 200 \<le> st \<and> st \<le> 299 then
           (let (b, w2) = serve req w1 in (\<lparr>status = st, err_text = txt, json = b\<rparr>, w2))
         else (\<lparr>status = st, err_text = txt, json = BOther\<rparr>, w1))"

text \<open>Reading a response body, as the optional chaining of the source does.\<close>

definition db_of_body :: "body \<Rightarrow> database" where
  "db_of_body b = (case b of BDatabase db \<Rightarrow> db | _ \<Rightarrow> [])"

definition first_result :: "body \<Rightarrow> nat option" where
  "first_result b = (case b of BResults (i # rest) \<Rightarrow> Some i | _ \<Rightarrow> None)"

definition id_of_body :: "body \<Rightarrow> nat option" where
  "id_of_body b = (case b of BPage i \<Rightarrow> Some i | _ \<Rightarrow> None)"

subsection \<open>Schema registry (lines 139 to 199)\<close>

definition dquote :: string where
  "dquote = [CHR 0x22]"

definition getDatabase :: "env \<Rightarrow> world \<Rightarrow> (error + database) \<times> world" where
  "getDatabase env w =
     (case dbSchemaCache w of
        Some db \<Rightarrow> (Inr db, w)
      | None \<Rightarrow>
          (let (r, w1) = fetch env GetDatabase w
           in if \<not> ok r then
                (Inl (Error (''Get database failed '' @ string_of_nat (status r) @ '': '' @ err_text r)), w1)
              else (let db = db_of_body (json r) in (Inr db, w1\<lparr>dbSchemaCache := Some db\<rparr>))))"

definition getTitlePropertyName :: "env \<Rightarrow> world \<Rightarrow> (error + string) \<times> world" where
  "getTitlePropertyName env w =
     (case getDatabase env w of
        (Inl e, w1) \<Rightarrow> (Inl e, w1)
      | (Inr db, w1) \<Rightarrow>
          (case find (\<lambda>(name, d). ptype d = ''title'') db of
             Some (name, d) \<Rightarrow> (Inr name, w1)
           | None \<Rightarrow> (Inl (Error ''No title property found on the Notion database.''), w1)))"

definition ensureSelectOption :: "env \<Rightarrow> string \<Rightarrow> jsval \<Rightarrow> world \<Rightarrow> (error + unit) \<times> world" where
  "ensureSelectOption env propertyName rawOption w =
     (case normalizeOptionName (js env) rawOption of
        None \<Rightarrow> (Inr (), w)
      | Some optionName \<Rightarrow>
          if optionName = [] then (Inr (), w)
          else
            (case getDatabase env w of
               (Inl e, w1) \<Rightarrow> (Inl e, w1)
             | (Inr db, w1) \<Rightarrow>
                 (case map_of db propertyName of
                    None \<Rightarrow> (Inr (), w1)
                  | Some prop \<Rightarrow>
                      (let typeKey = ptype prop
                       in if typeKey \<noteq> ''select'' \<and> typeKey \<noteq> ''multi_select'' then (Inr (), w1)
                          else
                            (let existing = poptions prop;
                                 exists = list_ex (\<lambda>n. toLowerCase (js env) n
                                                = toLowerCase (js env) optionName) existing
                             in if exists then (Inr (), w1)
                                else
                                  (let nextOptions = existing @ [optionName];
                                       (r, w2) = fetch env (PatchDatabase propertyName typeKey nextOptions) w1
                                   in if \<not> ok r then
                                        (Inl (Error (''Update DB schema (add select option '' @ dquote @ optionName
                                            @ dquote @ '' to '' @ dquote @ propertyName @ dquote @ '') failed ''
                                            @ string_of_nat (status r) @ '': '' @ err_text r)), w2)
                                      else
                                        (case getDatabase env (w2\<lparr>dbSchemaCache := None\<rparr>) of
                                           (Inl e, w3) \<Rightarrow> (Inl e, w3)
                                         | (Inr db', w3) \<Rightarrow> (Inr (), w3))))))))"

subsection \<open>Lookup and writes (lines 201 to 263)\<close>

definition findPageByIssueId :: "env \<Rightarrow> string \<Rightarrow> world \<Rightarrow> (error + nat option) \<times> world" where
  "findPageByIssueId env ident w =
     (let (r, w1) = fetch env (QueryDatabase ident) w
      in if \<not> ok r then
           (Inl (Error (''Query DB by Linear Issue ID failed '' @ string_of_nat (status r) @ '': '' @ err_text r)), w1)
         else (Inr (first_result (json r)), w1))"

text \<open>
  The retry loop of \<open>notionWrite\<close>: after an answer 429 it sleeps 500 milliseconds and
  sends the request again. It has no bound, so it is a partial function, and \<open>None\<close>
  is a call that never returns.
\<close>

partial_function (option) doFetch :: "env \<Rightarrow> request \<Rightarrow> world \<Rightarrow> (response \<times> world) option" where
  [code]: "doFetch env req w =
     (case fetch env req w of
        (r, w1) \<Rightarrow> if status r = 429 then doFetch env req (sleep 500 w1) else Some (r, w1))"

definition page_ref :: "nat option \<Rightarrow> string" where
  "page_ref ref = (case ref of Some i \<Rightarrow> string_of_nat i | None \<Rightarrow> ''undefined'')"

definition method_of :: "request \<Rightarrow> string" where
  "method_of req =
     (case req of
        GetDatabase \<Rightarrow> ''GET''
      | PatchDatabase pname tkey opts \<Rightarrow> ''PATCH''
      | QueryDatabase ident \<Rightarrow> ''POST''
      | CreatePage ps \<Rightarrow> ''POST''
      | PatchPage ref ps \<Rightarrow> ''PATCH''
      | AppendChildren ref bs \<Rightarrow> ''PATCH'')"

text \<open>The endpoint of a request, with the database id left out of the two database paths.\<close>

definition endpoint_of :: "request \<Rightarrow> string" where
  "endpoint_of req =
     (case req of
        GetDatabase \<Rightarrow> ''https://api.notion.com/v1/databases/''
      | PatchDatabase pname tkey opts \<Rightarrow> ''https://api.notion.com/v1/databases/''
      | QueryDatabase ident \<Rightarrow> ''https://api.notion.com/v1/databases//query''
      | CreatePage ps \<Rightarrow> ''https://api.notion.com/v1/pages''
      | PatchPage ref ps \<Rightarrow> ''https://api.notion.com/v1/pages/'' @ page_ref ref
      | AppendChildren ref bs \<Rightarrow> ''https://api.notion.com/v1/blocks/'' @ page_ref ref @ ''/children'')"

type_synonym 'a prog = "world \<Rightarrow> ((error + 'a) \<times> world) option"

definition notionWrite :: "env \<Rightarrow> request \<Rightarrow> body prog" where
  "notionWrite env req w =
     (case doFetch env req w of
        None \<Rightarrow> None
      | Some (resp, w1) \<Rightarrow>
          if \<not> ok resp then
            Some (Inl (Error (method_of req @ '' '' @ endpoint_of req @ '' failed ''
                    @ string_of_nat (status resp) @ '': '' @ err_text resp)), w1)
          else Some (Inr (json resp), w1))"

subsection \<open>Sequencing of asynchronous calls\<close>

text \<open>
  \<open>await m f\<close> runs \<open>m\<close> and continues with \<open>f\<close> on its value; an exception thrown by
  \<open>m\<close> ends the sequence, and so does a call that never returns.
\<close>

definition total :: "(world \<Rightarrow> (error + 'a) \<times> world) \<Rightarrow> 'a prog" where
  "total m w = Some (m w)"

definition return_val :: "'a \<Rightarrow> 'a prog" where
  "return_val x w = Some (Inr x, w)"

definition await :: "'a prog \<Rightarrow> ('a \<Rightarrow> 'b prog) \<Rightarrow> 'b prog" where
  "await m f w =
     (case m w of
        None \<Rightarrow> None
      | Some (Inl e, w1) \<Rightarrow> Some (Inl e, w1)
      | Some (Inr x, w1) \<Rightarrow> f x w1)"

text \<open>\<open>nowISO()\<close> reads the clock.\<close>

definition nowISO :: "env \<Rightarrow> string prog" where
  "nowISO env w = Some (Inr (clock env (length (trace w))), w)"

subsection \<open>The audit comment (lines 240 to 263)\<close>

fun replace_T :: "string \<Rightarrow> string" where
  "replace_T [] = []"
| "replace_T (c # cs) = (if c = CHR ''T'' then CHR '' '' # cs else c # replace_T cs)"

definition format_ts :: "string \<Rightarrow> string" where
  "format_ts t = takeWhile (\<lambda>c. c \<noteq> CHR ''.'') (replace_T t) @ '' UTC''"

text \<open>A value inside a template literal.\<close>

definition String_value :: "runtime \<Rightarrow> jsval \<Rightarrow> string" where
  "String_value rt v =
     (case v of
        JNull \<Rightarrow> ''null''
      | JStr s \<Rightarrow> s
      | JNum n \<Rightarrow> String rt n
      | JBool b \<Rightarrow> (if b then ''true'' else ''false'')
      | JObj nm \<Rightarrow> ''[object Object]'')"

definition makeLine :: "string \<Rightarrow> string \<Rightarrow> bool \<Rightarrow> block" where
  "makeLine l v b = \<lparr>line_label = l, line_value = v, line_bold = b\<rparr>"

definition newline :: string where
  "newline = [CHR 0x0A]"

definition appendSyncComment :: "env \<Rightarrow> nat option \<Rightarrow> issue \<Rightarrow> string \<Rightarrow> unit prog" where
  "appendSyncComment env pageId issue cycle w =
     (let ts = format_ts (clock env (length (trace w)))
      in await
           (notionWrite env
              (AppendChildren pageId
                 [makeLine ''Last synced: '' (ts @ newline) True,
                  makeLine ''Linear State: '' (or_else (state_name issue) ''N/A'' @ newline) False,
                  makeLine ''Priority: ''
                    ((case priority issue of JNull \<Rightarrow> ''N/A'' | v \<Rightarrow> String_value (js env) v)
                       @ newline) False,
                  makeLine ''Cycle: '' (or_else (Some cycle) ''N/A'') False]))
           (\<lambda>result. return_val ()) w)"

subsection \<open>Upsert (lines 281 to 373)\<close>

datatype action = Created | Updated | Skipped

text \<open>Truthiness of a value that is a string, null or undefined.\<close>

definition truthy :: "string option \<Rightarrow> bool" where
  "truthy x = (case x of None \<Rightarrow> False | Some s \<Rightarrow> s \<noteq> [])"

definition js_of :: "string option \<Rightarrow> jsval" where
  "js_of x = (case x of None \<Rightarrow> JNull | Some s \<Rightarrow> JStr s)"

text \<open>The em dash of the log lines, with the blanks around it.\<close>

definition dash :: string where
  "dash = [CHR 0x20, CHR 0xE2, CHR 0x80, CHR 0x94, CHR 0x20]"

text \<open>A string, null or undefined inside a template literal.\<close>

definition template :: "string option \<Rightarrow> string" where
  "template x = (case x of None \<Rightarrow> ''null'' | Some s \<Rightarrow> s)"

text \<open>\<open>...(c ? { k: v } : {})\<close> inside an object literal.\<close>

definition spread :: "bool \<Rightarrow> string \<Rightarrow> prop_value \<Rightarrow> props \<Rightarrow> props" where
  "spread c k v ps = (if c then AList.update k v ps else ps)"

text \<open>An object literal: its entries in order, a later key replacing an earlier one.\<close>

definition object_literal :: "(props \<Rightarrow> props) list \<Rightarrow> props" where
  "object_literal entries = foldl (\<lambda>ps f. f ps) [] entries"

text \<open>The object \<open>props\<close> of lines 316 to 333.\<close>

definition build_props ::
  "string \<Rightarrow> issue \<Rightarrow> string option \<Rightarrow> string option \<Rightarrow> string option \<Rightarrow> string option \<Rightarrow>
   string option \<Rightarrow> string option \<Rightarrow> string \<Rightarrow> props" where
  "build_props titlePropName issue statusName priorityVal moduleNorm subareaNorm typeNorm cycleNorm now =
     object_literal
       [AList.update titlePropName (Title (or_else (title issue) [])),
        AList.update ''Linear Issue ID'' (RichText [issue_identifier issue]),
        AList.update ''Linear URL'' (Url (url issue)),
        spread (truthy statusName) ''Status'' (Select (or_else statusName [])),
        spread (truthy priorityVal) ''Priority'' (Select (or_else priorityVal [])),
        spread (truthy (dueDate issue)) ''Due Date'' (Date (or_else (dueDate issue) []) None),
        spread (truthy moduleNorm) ''Module'' (Select (or_else moduleNorm [])),
        spread (truthy subareaNorm) ''Sub-Area'' (Select (or_else subareaNorm [])),
        spread (truthy typeNorm) ''Type'' (Select (or_else typeNorm [])),
        spread (truthy cycleNorm) ''Cycle'' (Select (or_else cycleNorm [])),
        AList.update ''Last Sync'' (Date now (Some ''Europe/Berlin'')),
        AList.update ''Description'' (RichText (toRichTextArray (Some (or_else (description issue) []))))]"

text \<open>Lines 336 to 339: the optional text property named Title.\<close>

definition add_title_text :: "database \<Rightarrow> issue \<Rightarrow> props \<Rightarrow> props" where
  "add_title_text db issue ps =
     (if (case map_of db ''Title'' of Some d \<Rightarrow> ptype d = ''rich_text'' | None \<Rightarrow> False)
      then AList.update ''Title'' (RichText [or_else (title issue) []]) ps
      else ps)"

text \<open>\<open>if (x) await ensureSelectOption(name, x)\<close>.\<close>

definition ensure_if_set :: "env \<Rightarrow> string \<Rightarrow> string option \<Rightarrow> unit prog" where
  "ensure_if_set env propertyName x =
     (if truthy x then total (ensureSelectOption env propertyName (js_of x)) else return_val ())"

text \<open>Lines 283 and 286: the label names of the record, and the label guard.\<close>

definition issue_labels :: "issue \<Rightarrow> string list" where
  "issue_labels issue = filter (\<lambda>n. n \<noteq> []) (map (\<lambda>n. or_else n []) (label_nodes issue))"

definition hasRequired :: "env \<Rightarrow> string list \<Rightarrow> bool" where
  "hasRequired env labels =
     list_ex (\<lambda>n. toLowerCase (js env) n = toLowerCase (js env) (REQUIRED_LABEL env)) labels"

definition upsert :: "env \<Rightarrow> issue \<Rightarrow> (action \<times> nat option) prog" where
  "upsert env issue w =
     (let ident = issue_identifier issue;
          labels = issue_labels issue
      in if \<not> hasRequired env labels then
           Some (Inr (Skipped, None),
                 w\<lparr>summary := (summary w)
                      \<lparr>skippedNoLabel := skippedNoLabel (summary w) + 1,
                       items := items (summary w)
                                  @ [''Skipped (no label): '' @ ident @ dash @ template (title issue)]\<rparr>\<rparr>)
         else
           (let ex = mapExtras (js env) labels (or_else (cycle_name issue) []);
                statusName = normalizeOptionName (js env) (js_of (state_name issue));
                priorityVal = normalizeOptionName (js env)
                                (js_of (mapPriorityToText (js env) (priority issue)));
                moduleNorm = normalizeOptionName (js env) (JStr (moduleVal ex));
                subareaNorm = normalizeOptionName (js env) (JStr (subareaVal ex));
                typeNorm = normalizeOptionName (js env) (JStr (typeVal ex));
                cycleNorm = normalizeOptionName (js env) (JStr (cycleVal ex))
            in
              await (ensure_if_set env ''Status'' statusName) (\<lambda>u.
              await (ensure_if_set env ''Priority'' priorityVal) (\<lambda>u.
              await (ensure_if_set env ''Module'' moduleNorm) (\<lambda>u.
              await (ensure_if_set env ''Sub-Area'' subareaNorm) (\<lambda>u.
              await (ensure_if_set env ''Type'' typeNorm) (\<lambda>u.
              await (ensure_if_set env ''Cycle'' cycleNorm) (\<lambda>u.
              await (total (getTitlePropertyName env)) (\<lambda>titlePropName.
              await (nowISO env) (\<lambda>now.
              await (total (getDatabase env)) (\<lambda>db.
              (let props = add_title_text db issue
                     (build_props titlePropName issue statusName priorityVal moduleNorm
                        subareaNorm typeNorm cycleNorm now)
               in
              await (total (findPageByIssueId env ident)) (\<lambda>existing.
              await
                (case existing of
                   Some pid \<Rightarrow>
                     await (notionWrite env (PatchPage (Some pid) props)) (\<lambda>result.
                     return_val (Some pid, Updated))
                 | None \<Rightarrow>
                     await (notionWrite env (CreatePage props)) (\<lambda>result.
                     return_val (id_of_body result, Created)))
                (\<lambda>(pageId, action).
              await (appendSyncComment env pageId issue (cycleVal ex)) (\<lambda>u.
              await (nowISO env) (\<lambda>now2.
              await (notionWrite env
                       (PatchPage pageId [(''Last Sync'', Date now2 (Some ''Europe/Berlin''))])) (\<lambda>result.
              return_val (action, pageId)))))))))))))))) w))"

subsection \<open>The driver (lines 376 to 436)\<close>

text \<open>
  The body of the loop over the feed, lines 381 to 396: the record is counted, its
  upsert runs inside the \<open>try\<close>, and the iteration ends with \<open>sleep(200)\<close>.
\<close>

definition loop_body :: "env \<Rightarrow> issue \<Rightarrow> world \<Rightarrow> world option" where
  "loop_body env issue w =
     (let w0 = w\<lparr>summary := (summary w)\<lparr>processed := processed (summary w) + 1\<rparr>\<rparr>
      in case upsert env issue w0 of
           None \<Rightarrow> None
         | Some (Inr (action, pageId), w1) \<Rightarrow>
             Some (sleep 200
               (if action = Created then
                  w1\<lparr>summary := (summary w1)
                       \<lparr>created := created (summary w1) + 1,
                        items := items (summary w1)
                          @ [''Created: '' @ issue_identifier issue @ dash @ template (title issue)]\<rparr>\<rparr>
                else if action = Updated then
                  w1\<lparr>summary := (summary w1)
                       \<lparr>updated := updated (summary w1) + 1,
                        items := items (summary w1)
                          @ [''Updated: '' @ issue_identifier issue @ dash @ template (title issue)]\<rparr>\<rparr>
                else w1))
         | Some (Inl (Error msg), w1) \<Rightarrow>
             Some (sleep 200
               (w1\<lparr>summary := (summary w1)
                     \<lparr>errors := errors (summary w1) + 1,
                      items := items (summary w1)
                        @ [''Error: '' @ issue_identifier issue @ dash @ msg]\<rparr>\<rparr>)))"

fun for_each :: "env \<Rightarrow> issue list \<Rightarrow> world \<Rightarrow> world option" where
  "for_each env [] w = Some w"
| "for_each env (issue # rest) w =
     (case loop_body env issue w of
        None \<Rightarrow> None
      | Some w1 \<Rightarrow> for_each env rest w1)"

text \<open>
  The upstream's answers to the successive page requests of \<open>fetchUpdatedIssuesSince\<close>
  (lines 85 to 136): each has a status, a text, its edges, and the answer to the next
  request when \<open>hasNextPage\<close> is set.
\<close>

datatype feed = Reply nat string "issue list" "feed option"

datatype outcome = Finished world | Fatal error world

fun main :: "env \<Rightarrow> feed \<Rightarrow> world \<Rightarrow> outcome option" where
  "main env (Reply st txt edges nxt) w =
     (if \<not> (200 \<le> st \<and> st \<le> 299) then
        Some (Fatal (Error (''Linear GraphQL failed '' @ string_of_nat st @ '': '' @ txt)) w)
      else
        (case for_each env edges w of
           None \<Rightarrow> None
         | Some w1 \<Rightarrow>
             (case nxt of
                None \<Rightarrow> Some (Finished w1)
              | Some nextReply \<Rightarrow> main env nextReply w1)))"

definition summary0 :: summary where
  "summary0 = \<lparr>processed = 0, created = 0, updated = 0, skippedNoLabel = 0, errors = 0, items = []\<rparr>"

text \<open>The state at the start of a run over a destination with the given schema and pages.\<close>

definition start :: "database \<Rightarrow> page list \<Rightarrow> world" where
  "start db ps =
     \<lparr>db_properties = db, db_pages = ps, trace = [], dbSchemaCache = None, summary = summary0\<rparr>"

subsection \<open>Specification predicates\<close>

text \<open>
  \<open>first_matching cands labels v\<close>: \<open>v\<close> is the first label, in the order of the
  record's labels, that equals a candidate up to letter case; it is empty when no
  label does.
\<close>

definition first_matching :: "runtime \<Rightarrow> string list \<Rightarrow> string list \<Rightarrow> string \<Rightarrow> bool" where
  "first_matching rt cands labels v =
     (if \<exists>l \<in> set labels. toLowerCase rt l \<in> toLowerCase rt ` set cands then
        (\<exists>pre post. labels = pre @ v # post \<and> toLowerCase rt v \<in> toLowerCase rt ` set cands
            \<and> (\<forall>x \<in> set pre. toLowerCase rt x \<notin> toLowerCase rt ` set cands))
      else v = [])"

text \<open>
  The selection as the specification words it: the first candidate, in the order of
  the precedence list, that occurs among the labels up to letter case.
\<close>

definition pick_by_precedence :: "runtime \<Rightarrow> string list \<Rightarrow> string list \<Rightarrow> string option" where
  "pick_by_precedence rt labels cands =
     find (\<lambda>c. list_ex (\<lambda>l. toLowerCase rt l = toLowerCase rt c) labels) cands"

subsection \<open>The phases of an upsert\<close>

text \<open>
  For the proofs, the body of \<open>upsert\<close> after the label guard is cut into phases:
  the preparation of the schema and of the properties (lines 294 to 339), the lookup
  (line 342), the write of the page (lines 345 to 360), and the comment with the final
  timestamp (lines 363 to 372). Lemma \<open>upsert_phases\<close> shows that \<open>upsert\<close> is
  their sequence.
\<close>

definition prepare :: "env \<Rightarrow> issue \<Rightarrow> props prog" where
  "prepare env issue =
     (let labels = issue_labels issue;
          ex = mapExtras (js env) labels (or_else (cycle_name issue) []);
          statusName = normalizeOptionName (js env) (js_of (state_name issue));
          priorityVal = normalizeOptionName (js env)
                          (js_of (mapPriorityToText (js env) (priority issue)));
          moduleNorm = normalizeOptionName (js env) (JStr (moduleVal ex));
          subareaNorm = normalizeOptionName (js env) (JStr (subareaVal ex));
          typeNorm = normalizeOptionName (js env) (JStr (typeVal ex));
          cycleNorm = normalizeOptionName (js env) (JStr (cycleVal ex))
      in
        await (ensure_if_set env ''Status'' statusName) (\<lambda>u.
        await (ensure_if_set env ''Priority'' priorityVal) (\<lambda>u.
        await (ensure_if_set env ''Module'' moduleNorm) (\<lambda>u.
        await (ensure_if_set env ''Sub-Area'' subareaNorm) (\<lambda>u.
        await (ensure_if_set env ''Type'' typeNorm) (\<lambda>u.
        await (ensure_if_set env ''Cycle'' cycleNorm) (\<lambda>u.
        await (total (getTitlePropertyName env)) (\<lambda>titlePropName.
        await (nowISO env) (\<lambda>now.
        await (total (getDatabase env)) (\<lambda>db.
        return_val
          (add_title_text db issue
             (build_props titlePropName issue statusName priorityVal moduleNorm
                subareaNorm typeNorm cycleNorm now))))))))))))"

definition write_page :: "env \<Rightarrow> props \<Rightarrow> nat option \<Rightarrow> (nat option \<times> action) prog" where
  "write_page env props existing =
     (case existing of
        Some pid \<Rightarrow>
          await (notionWrite env (PatchPage (Some pid) props)) (\<lambda>result.
          return_val (Some pid, Updated))
      | None \<Rightarrow>
          await (notionWrite env (CreatePage props)) (\<lambda>result.
          return_val (id_of_body result, Created)))"

definition finish :: "env \<Rightarrow> issue \<Rightarrow> nat option \<Rightarrow> action \<Rightarrow> (action \<times> nat option) prog" where
  "finish env issue pageId action =
     await (appendSyncComment env pageId issue
              (cycleVal (mapExtras (js env) (issue_labels issue) (or_else (cycle_name issue) [])))) (\<lambda>u.
     await (nowISO env) (\<lambda>now2.
     await (notionWrite env
              (PatchPage pageId [(''Last Sync'', Date now2 (Some ''Europe/Berlin''))])) (\<lambda>result.
     return_val (action, pageId))))"

subsection \<open>Observations on a run\<close>

text \<open>The requests sent between two states, and the kinds of request.\<close>

definition sent :: "world \<Rightarrow> world \<Rightarrow> request list" where
  "sent w w' = drop (length (requests w)) (requests w')"

text \<open>The events of \<open>n\<close> attempts of a request that were answered 429.\<close>

fun retries :: "nat \<Rightarrow> request \<Rightarrow> event list" where
  "retries 0 req = []"
| "retries (Suc n) req = Sent req # Slept 500 # retries n req"

definition is_mutation :: "request \<Rightarrow> bool" where
  "is_mutation req = (case req of PatchDatabase pname tkey opts \<Rightarrow> True | _ \<Rightarrow> False)"

definition is_create :: "request \<Rightarrow> bool" where
  "is_create req = (case req of CreatePage ps \<Rightarrow> True | _ \<Rightarrow> False)"

text \<open>The external identifiers of the destination's pages, in store order.\<close>

definition page_ids :: "world \<Rightarrow> string option list" where
  "page_ids w = map linear_issue_id (db_pages w)"

definition has_page :: "string \<Rightarrow> world \<Rightarrow> bool" where
  "has_page ident w = (Some ident \<in> set (page_ids w))"

subsection \<open>Relations kept by every step of a run\<close>

text \<open>
  A relation between the state before and the state after is a frame when it is
  reflexive, transitive and blind to the schema cache and to a delay; a request is allowed by it when
  one exchange of that request keeps it; a program ensures it when every run that
  returns keeps it.
\<close>

definition frame :: "(world \<Rightarrow> world \<Rightarrow> bool) \<Rightarrow> bool" where
  "frame R = ((\<forall>w. R w w) \<and> (\<forall>a b c. R a b \<longrightarrow> R b c \<longrightarrow> R a c)
      \<and> (\<forall>w c. R w (w\<lparr>dbSchemaCache := c\<rparr>)) \<and> (\<forall>w ms. R w (sleep ms w)))"

definition allows :: "env \<Rightarrow> (world \<Rightarrow> world \<Rightarrow> bool) \<Rightarrow> request \<Rightarrow> bool" where
  "allows env R req = (\<forall>w. R w (snd (fetch env req w)))"

definition ensures :: "(world \<Rightarrow> world \<Rightarrow> bool) \<Rightarrow> 'a prog \<Rightarrow> bool" where
  "ensures R m = (\<forall>w r w'. m w = Some (r, w') \<longrightarrow> R w w')"


subsection \<open>Run accounting and the feed\<close>

text \<open>The accounting invariant of the summary.\<close>

definition balanced :: "summary \<Rightarrow> bool" where
  "balanced s = (processed s = created s + updated s + skippedNoLabel s + errors s
                 \<and> length (items s) = processed s)"

fun final_world :: "outcome \<Rightarrow> world" where
  "final_world (Finished w) = w"
| "final_world (Fatal e w) = w"

text \<open>The records the feed yields: those of the pages before the first failing answer.\<close>

fun feed_issues :: "feed \<Rightarrow> issue list" where
  "feed_issues (Reply st txt edges nxt) =
     (if \<not> (200 \<le> st \<and> st \<le> 299) then []
      else edges @ (case nxt of None \<Rightarrow> [] | Some f \<Rightarrow> feed_issues f))"


text \<open>The first failing answer of the upstream, if there is one.\<close>

fun feed_failure :: "feed \<Rightarrow> (nat \<times> string) option" where
  "feed_failure (Reply st txt edges nxt) =
     (if \<not> (200 \<le> st \<and> st \<le> 299) then Some (st, txt)
      else (case nxt of None \<Rightarrow> None | Some f \<Rightarrow> feed_failure f))"

subsection \<open>Example data\<close>

text \<open>
  The examples are run with the built-ins as they are on strings of ASCII characters and
  on the integral numbers of the examples: \<open>trim\<close> strips the six ASCII white-space
  characters, \<open>toLowerCase\<close> folds the letters A to Z, and \<open>String\<close> prints an
  integer in decimal. The example data hold no other character and no other number.
\<close>

definition is_space :: "char \<Rightarrow> bool" where
  "is_space c = (c \<in> set [CHR 0x09, CHR 0x0A, CHR 0x0B, CHR 0x0C, CHR 0x0D, CHR 0x20])"

definition lower_char :: "char \<Rightarrow> char" where
  "lower_char c =
     (let n = (of_char c :: nat) in if 65 \<le> n \<and> n \<le> 90 then char_of (n + 32) else c)"

definition decimal :: "number \<Rightarrow> string" where
  "decimal n =
     (case n of
        Finite x \<Rightarrow>
          (if x < 0 then CHR ''-'' # string_of_nat (nat \<lfloor>- x\<rfloor>) else string_of_nat (nat \<lfloor>x\<rfloor>))
      | NaN \<Rightarrow> ''NaN''
      | Infinity positive \<Rightarrow> (if positive then ''Infinity'' else ''-Infinity''))"

definition ascii_runtime :: runtime where
  "ascii_runtime =
     \<lparr>toLowerCase = map lower_char,
      trim = (\<lambda>s. rev (dropWhile is_space (rev (dropWhile is_space s)))),
      String = decimal\<rparr>"

text \<open>
  A destination that answers every request with 200, a small schema, the record of the
  specification's scenario, and a record without the required label.
\<close>

definition example_env :: env where
  "example_env =
     \<lparr>js = ascii_runtime, REQUIRED_LABEL = ''Customer - Hapag Lloyd'',
      respond = (\<lambda>k. (200, [])),
      clock = (\<lambda>k. ''2026-01-01T00:00:00.000Z'')\<rparr>"

definition example_db :: database where
  "example_db =
     [(''Name'', \<lparr>ptype = ''title'', poptions = []\<rparr>),
      (''Status'', \<lparr>ptype = ''select'', poptions = [''Todo'']\<rparr>),
      (''Priority'', \<lparr>ptype = ''select'', poptions = [''high'']\<rparr>),
      (''Type'', \<lparr>ptype = ''multi_select'', poptions = []\<rparr>)]"

definition example_issue :: issue where
  "example_issue =
     \<lparr>issue_identifier = ''ENG-1'', title = Some ''Fix it'', url = ''https://linear.app/ENG-1'',
      priority = JNum (Finite 2), dueDate = None, state_name = Some ''In Progress'',
      label_nodes = [Some ''Customer - Hapag Lloyd'', Some ''Bug''],
      cycle_name = None, description = None\<rparr>"

definition unlabelled_issue :: issue where
  "unlabelled_issue =
     \<lparr>issue_identifier = ''ENG-2'', title = Some ''Other'', url = ''https://linear.app/ENG-2'',
      priority = JNull, dueDate = None, state_name = None,
      label_nodes = [Some ''Bug''], cycle_name = None, description = None\<rparr>"


definition example_feed :: feed where
  "example_feed = Reply 200 [] [example_issue, unlabelled_issue] (Some (Reply 200 [] [example_issue] None))"

text \<open>A destination that answers every request with 500, and a feed whose second page fails.\<close>

definition failing_env :: env where
  "failing_env =
     \<lparr>js = ascii_runtime, REQUIRED_LABEL = ''Customer - Hapag Lloyd'',
      respond = (\<lambda>k. (500, ''boom'')),
      clock = (\<lambda>k. ''2026-01-01T00:00:00.000Z'')\<rparr>"

definition failing_feed :: feed where
  "failing_feed = Reply 200 [] [example_issue] (Some (Reply 503 ''upstream down'' [unlabelled_issue] None))"

subsection \<open>The properties written for a record\<close>

text \<open>
  The object \<open>props\<close> that \<open>upsert\<close> holds at line 342, as a function of the title
  property's name, the schema and the clock reading: lines 294 to 339.
\<close>

definition written_props :: "runtime \<Rightarrow> string \<Rightarrow> database \<Rightarrow> string \<Rightarrow> issue \<Rightarrow> props" where
  "written_props rt titlePropName db now issue =
     (let ex = mapExtras rt (issue_labels issue) (or_else (cycle_name issue) [])
      in add_title_text db issue
           (build_props titlePropName issue
              (normalizeOptionName rt (js_of (state_name issue)))
              (normalizeOptionName rt (js_of (mapPriorityToText rt (priority issue))))
              (normalizeOptionName rt (JStr (moduleVal ex)))
              (normalizeOptionName rt (JStr (subareaVal ex)))
              (normalizeOptionName rt (JStr (typeVal ex)))
              (normalizeOptionName rt (JStr (cycleVal ex)))
              now))"

text \<open>The seven optional fields of a record with their mapped values.\<close>

definition optional_fields :: "runtime \<Rightarrow> issue \<Rightarrow> (string \<times> string option) list" where
  "optional_fields rt issue =
     (let ex = mapExtras rt (issue_labels issue) (or_else (cycle_name issue) [])
      in [(''Status'', normalizeOptionName rt (js_of (state_name issue))),
          (''Priority'', normalizeOptionName rt (js_of (mapPriorityToText rt (priority issue)))),
          (''Due Date'', dueDate issue),
          (''Module'', normalizeOptionName rt (JStr (moduleVal ex))),
          (''Sub-Area'', normalizeOptionName rt (JStr (subareaVal ex))),
          (''Type'', normalizeOptionName rt (JStr (typeVal ex))),
          (''Cycle'', normalizeOptionName rt (JStr (cycleVal ex)))])"

text \<open>Every request sent between two states satisfies \<open>Q\<close>.\<close>

definition trace_all :: "(request \<Rightarrow> bool) \<Rightarrow> world \<Rightarrow> world \<Rightarrow> bool" where
  "trace_all Q w w' = (\<exists>rs. requests w' = requests w @ rs \<and> list_all Q rs)"

text \<open>
  The property sets \<open>upsert\<close> may send for a record: the object \<open>props\<close> in a create
  or an update, and the single Last Sync entry of the final patch.
\<close>

definition page_write :: "runtime \<Rightarrow> issue \<Rightarrow> request \<Rightarrow> bool" where
  "page_write rt issue req =
     (case req of
        CreatePage ps \<Rightarrow> (\<exists>t db now. ps = written_props rt t db now issue)
      | PatchPage ref ps \<Rightarrow>
          (\<exists>t db now. ps = written_props rt t db now issue)
          \<or> (\<exists>now. ps = [(''Last Sync'', Date now (Some ''Europe/Berlin''))])
      | _ \<Rightarrow> True)"

text \<open>
  A destination that answers its requests number \<open>6\<close> and \<open>7\<close> with 429 (in the
  example run these are the first two attempts to create the page), one that answers
  its first two requests with 429, and one that answers every request with 429.
\<close>

definition rate_limited_env :: env where
  "rate_limited_env =
     \<lparr>js = ascii_runtime, REQUIRED_LABEL = ''Customer - Hapag Lloyd'',
      respond = (\<lambda>k. if k = 6 \<or> k = 7 then (429, ''slow down'') else (200, [])),
      clock = (\<lambda>k. ''2026-01-01T00:00:00.000Z'')\<rparr>"

definition twice_limited_env :: env where
  "twice_limited_env =
     \<lparr>js = ascii_runtime, REQUIRED_LABEL = ''Customer - Hapag Lloyd'',
      respond = (\<lambda>k. if k < 2 then (429, ''slow down'') else (200, [])),
      clock = (\<lambda>k. ''2026-01-01T00:00:00.000Z'')\<rparr>"

definition always_limited_env :: env where
  "always_limited_env =
     \<lparr>js = ascii_runtime, REQUIRED_LABEL = ''Customer - Hapag Lloyd'',
      respond = (\<lambda>k. (429, ''slow down'')),
      clock = (\<lambda>k. ''2026-01-01T00:00:00.000Z'')\<rparr>"

text \<open>The labelled records of a list that have no page in the destination.\<close>

definition unsynced :: "env \<Rightarrow> world \<Rightarrow> issue list \<Rightarrow> issue list" where
  "unsynced env w issues =
     filter (\<lambda>i. hasRequired env (issue_labels i) \<and> \<not> has_page (issue_identifier i) w) issues"

text \<open>
  The state after a run of the example feed over an empty destination, and the state in
  which a second run starts over the destination as the first one left it.
\<close>

definition first_run_end :: world where
  "first_run_end = final_world (the (main example_env example_feed (start example_db [])))"

definition second_start :: world where
  "second_start = first_run_end\<lparr>dbSchemaCache := None, summary := summary0\<rparr>"

text \<open>
  The cases in which \<open>ensureSelectOption\<close> has nothing to add to the schema it reads:
  the property is missing, its kind is neither select nor multi\_select, or one of its
  options has the \<open>toLowerCase\<close> of the name.
\<close>

definition nothing_to_add :: "runtime \<Rightarrow> database \<Rightarrow> string \<Rightarrow> string \<Rightarrow> bool" where
  "nothing_to_add rt db pname opt =
     (case map_of db pname of
        None \<Rightarrow> True
      | Some pd \<Rightarrow>
          (ptype pd \<noteq> ''select'' \<and> ptype pd \<noteq> ''multi_select'')
          \<or> list_ex (\<lambda>n. toLowerCase rt n = toLowerCase rt opt) (poptions pd))"

text \<open>The message of the exception thrown when the schema mutation is not accepted.\<close>

definition schema_error :: "string \<Rightarrow> string \<Rightarrow> nat \<times> string \<Rightarrow> error" where
  "schema_error opt pname answer =
     Error (''Update DB schema (add select option '' @ dquote @ opt @ dquote @ '' to '' @ dquote
            @ pname @ dquote @ '') failed '' @ string_of_nat (fst answer) @ '': '' @ snd answer)"

text \<open>
  A destination that rejects its second request, which in the example is the schema
  mutation, with 500 and accepts every other request.
\<close>

definition reject_once_env :: env where
  "reject_once_env =
     \<lparr>js = ascii_runtime, REQUIRED_LABEL = ''Customer - Hapag Lloyd'',
      respond = (\<lambda>k. if k = 1 then (500, ''boom'') else (200, [])),
      clock = (\<lambda>k. ''2026-01-01T00:00:00.000Z'')\<rparr>"

text \<open>The requests that \<open>upsert\<close> sends through \<open>notionWrite\<close>: the writes to a page.\<close>

definition is_page_write :: "request \<Rightarrow> bool" where
  "is_page_write req =
     (case req of
        CreatePage ps \<Rightarrow> True
      | PatchPage ref ps \<Rightarrow> True
      | AppendChildren ref bs \<Rightarrow> True
      | _ \<Rightarrow> False)"

text \<open>
  The retry discipline on a list of events, the first request of which is the
  destination's request number \<open>k\<close>: every write to a page that is answered 429 is
  followed by a pause of 500 milliseconds and then by the same request.
\<close>

fun retried :: "env \<Rightarrow> nat \<Rightarrow> event list \<Rightarrow> bool" where
  "retried env k [] = True"
| "retried env k (Slept ms # es) = retried env k es"
| "retried env k (Sent req # es) =
     ((if is_page_write req \<and> fst (respond env k) = 429
       then take 2 es = [Slept 500, Sent req] else True)
      \<and> retried env (Suc k) es)"

text \<open>The events between two states.\<close>

definition events :: "world \<Rightarrow> world \<Rightarrow> event list" where
  "events w w' = drop (length (trace w)) (trace w')"

definition retry_rel :: "env \<Rightarrow> world \<Rightarrow> world \<Rightarrow> bool" where
  "retry_rel env w w' = (\<exists>es. trace w' = trace w @ es \<and> retried env (length (requests w)) es)"

text \<open>
  From the state \<open>w\<close> on, the destination answers every request with a success or with
  429, and it does not answer 429 for ever.
\<close>

definition lenient :: "env \<Rightarrow> world \<Rightarrow> bool" where
  "lenient env w =
     ((\<forall>k \<ge> length (requests w).
          fst (respond env k) = 429 \<or> (200 \<le> fst (respond env k) \<and> fst (respond env k) \<le> 299))
      \<and> (\<forall>k. \<exists>j \<ge> k. fst (respond env j) \<noteq> 429))"

text \<open>
  A destination that answers its second request with 429 and every other request with
  200. In the example run the second request is the schema mutation that adds the
  status of the record.
\<close>

definition schema_limited_env :: env where
  "schema_limited_env =
     \<lparr>js = ascii_runtime, REQUIRED_LABEL = ''Customer - Hapag Lloyd'',
      respond = (\<lambda>k. if k = 1 then (429, ''slow down'') else (200, [])),
      clock = (\<lambda>k. ''2026-01-01T00:00:00.000Z'')\<rparr>"

(*DEFS*)

section \<open>Properties\<close>

subsection \<open>The trace\<close>

lemma requests_of_append [simp]: "requests_of (a @ b) = requests_of a @ requests_of b"
  by (induction a rule: requests_of.induct) simp_all

lemma requests_of_retries [simp]: "requests_of (retries n req) = replicate n req"
  by (induction n) simp_all

lemma retries_Suc_end: "retries n req @ [Sent req, Slept 500] = retries (Suc n) req"
  by (induction n) simp_all

lemma requests_update [simp]:
  "requests (w\<lparr>trace := t\<rparr>) = requests_of t"
  "requests (w\<lparr>summary := s\<rparr>) = requests w"
  "requests (w\<lparr>dbSchemaCache := c\<rparr>) = requests w"
  "requests (w\<lparr>db_pages := ps\<rparr>) = requests w"
  "requests (w\<lparr>db_properties := db\<rparr>) = requests w"
  by (simp_all add: requests_def)

lemma sleep_fields [simp]:
  "trace (sleep ms w) = trace w @ [Slept ms]"
  "requests (sleep ms w) = requests w"
  "summary (sleep ms w) = summary w"
  "db_pages (sleep ms w) = db_pages w"
  "db_properties (sleep ms w) = db_properties w"
  "dbSchemaCache (sleep ms w) = dbSchemaCache w"
  by (simp_all add: sleep_def requests_def)

lemma requests_fold [simp]: "requests_of (trace w) = requests w"
  by (simp add: requests_def)

subsection \<open>Description chunking\<close>











subsection \<open>Priority mapping\<close>

text \<open>
  C7: a numeric priority goes through the table 5 Very Low, 4 Low, 3 Medium, 2 High,
  1 Urgent, 0 None, and any other number, integral or not, finite or not, becomes the
  text that \<open>String\<close> gives for it; a textual priority is trimmed by \<open>trim\<close>, and is
  absent when nothing is left; a null priority is absent. This holds whatever the
  built-ins \<open>trim\<close> and \<open>String\<close> compute.
\<close>

theorem mapPriorityToText_table:
  "mapPriorityToText rt (JNum p) =
     Some (if p = Finite 5 then ''Very Low'' else if p = Finite 4 then ''Low''
           else if p = Finite 3 then ''Medium'' else if p = Finite 2 then ''High''
           else if p = Finite 1 then ''Urgent'' else if p = Finite 0 then ''None''
           else String rt p)
   \<and> mapPriorityToText rt (JStr s) = (if trim rt s = [] then None else Some (trim rt s))
   \<and> mapPriorityToText rt JNull = None"
  by (simp add: mapPriorityToText_def priority_map_def)

subsection \<open>Label mapping\<close>

lemma find_first_split:
  "find P xs = Some v \<Longrightarrow> \<exists>pre post. xs = pre @ v # post \<and> P v \<and> (\<forall>x \<in> set pre. \<not> P x)"
proof (induction xs)
  case Nil
  then show ?case by simp
next
  case (Cons a xs)
  show ?case
  proof (cases "P a")
    case True
    with Cons.prems have "a = v" by simp
    with True have "a # xs = [] @ v # xs \<and> P v \<and> (\<forall>x \<in> set []. \<not> P x)" by simp
    then show ?thesis by blast
  next
    case False
    with Cons.prems have "find P xs = Some v" by simp
    from Cons.IH [OF this] obtain pre post
      where "xs = pre @ v # post" "P v" "\<forall>x \<in> set pre. \<not> P x" by blast
    with False have "a # xs = (a # pre) @ v # post \<and> P v \<and> (\<forall>x \<in> set (a # pre). \<not> P x)"
      by simp
    then show ?thesis by blast
  qed
qed

lemma pickFirst_first_matching:
  "first_matching rt cands labels (or_else (pickFirst rt labels cands) [])"
proof (cases "pickFirst rt labels cands")
  case None
  then have "\<forall>l \<in> set labels. \<forall>c \<in> set cands. toLowerCase rt c \<noteq> toLowerCase rt l"
    by (auto simp: pickFirst_def find_None_iff list_ex_iff)
  then have "\<not> (\<exists>l \<in> set labels. toLowerCase rt l \<in> toLowerCase rt ` set cands)"
    by (metis imageE)
  with None show ?thesis by (simp add: first_matching_def or_else_def)
next
  case (Some v)
  let ?P = "\<lambda>l. list_ex (\<lambda>c. toLowerCase rt c = toLowerCase rt l) cands"
  from Some have "find ?P labels = Some v" by (simp add: pickFirst_def)
  from find_first_split [OF this] obtain pre post
    where dec: "labels = pre @ v # post" and pv: "?P v" and npre: "\<forall>x \<in> set pre. \<not> ?P x"
    by blast
  from pv have mv: "toLowerCase rt v \<in> toLowerCase rt ` set cands"
    unfolding list_ex_iff by (metis imageI)
  from npre have mpre: "\<forall>x \<in> set pre. toLowerCase rt x \<notin> toLowerCase rt ` set cands"
    unfolding list_ex_iff by (metis imageE)
  from Some have val: "or_else (pickFirst rt labels cands) [] = v" by (simp add: or_else_def)
  from dec mv have "\<exists>l \<in> set labels. toLowerCase rt l \<in> toLowerCase rt ` set cands" by auto
  moreover from dec mv mpre
  have "\<exists>pre post. labels = pre @ v # post \<and> toLowerCase rt v \<in> toLowerCase rt ` set cands
            \<and> (\<forall>x \<in> set pre. toLowerCase rt x \<notin> toLowerCase rt ` set cands)" by blast
  ultimately show ?thesis unfolding val first_matching_def by simp
qed

lemma pickFirst_member: "pickFirst rt labels cands = Some v \<Longrightarrow> v \<in> set labels"
  by (auto simp: pickFirst_def dest: find_first_split)

lemma issue_labels_nonempty: "[] \<notin> set (issue_labels issue)"
  by (simp add: issue_labels_def)

lemma typeVal_pick:
  assumes "[] \<notin> set labels"
  shows "typeVal (mapExtras rt labels c) = or_else (pickFirst rt labels TYPE_LABELS) []"
proof (cases "pickFirst rt labels TYPE_LABELS")
  case None
  then have "\<forall>l \<in> set labels. \<not> list_ex (\<lambda>c. toLowerCase rt c = toLowerCase rt l) TYPE_LABELS"
    by (auto simp: pickFirst_def find_None_iff)
  then have "''Features'' \<notin> set labels" by (auto simp: TYPE_LABELS_def)
  with None show ?thesis by (simp add: mapExtras_def or_else_def)
next
  case (Some v)
  from pickFirst_member [OF this] assms have "v \<noteq> []" by auto
  with Some show ?thesis by (simp add: mapExtras_def or_else_def)
qed

text \<open>
  C8 (as amended): for the label list of every record, each of the module, sub-area and
  type values is the first label, in the order of the record's labels, whose
  \<open>toLowerCase\<close> equals the \<open>toLowerCase\<close> of one of the category's candidates, in
  the label's own spelling, and is empty when no label matches. When the literal label
  Features is present the type value is not empty. This holds whatever the built-in
  \<open>toLowerCase\<close> computes.
\<close>

theorem mapExtras_first_matching:
  "first_matching rt MODULE_LABELS (issue_labels issue)
      (moduleVal (mapExtras rt (issue_labels issue) c))
   \<and> first_matching rt SUBAREA_LABELS (issue_labels issue)
      (subareaVal (mapExtras rt (issue_labels issue) c))
   \<and> first_matching rt TYPE_LABELS (issue_labels issue)
      (typeVal (mapExtras rt (issue_labels issue) c))
   \<and> (''Features'' \<in> set (issue_labels issue) \<longrightarrow>
        typeVal (mapExtras rt (issue_labels issue) c) \<noteq> [])"
proof -
  let ?ls = "issue_labels issue"
  have m: "first_matching rt MODULE_LABELS ?ls (moduleVal (mapExtras rt ?ls c))"
    using pickFirst_first_matching [of rt MODULE_LABELS ?ls] by (simp add: mapExtras_def)
  have s: "first_matching rt SUBAREA_LABELS ?ls (subareaVal (mapExtras rt ?ls c))"
    using pickFirst_first_matching [of rt SUBAREA_LABELS ?ls] by (simp add: mapExtras_def)
  have t: "first_matching rt TYPE_LABELS ?ls (typeVal (mapExtras rt ?ls c))"
    using pickFirst_first_matching [of rt TYPE_LABELS ?ls]
    by (simp add: typeVal_pick [OF issue_labels_nonempty])
  have f: "''Features'' \<in> set ?ls \<longrightarrow> typeVal (mapExtras rt ?ls c) \<noteq> []"
  proof
    assume "''Features'' \<in> set ?ls"
    then have "\<exists>l \<in> set ?ls. toLowerCase rt l \<in> toLowerCase rt ` set TYPE_LABELS"
      by (auto simp: TYPE_LABELS_def)
    with t obtain pre post where "?ls = pre @ typeVal (mapExtras rt ?ls c) # post"
      unfolding first_matching_def by auto
    then have "typeVal (mapExtras rt ?ls c) \<in> set ?ls"
      by (metis in_set_conv_decomp)
    with issue_labels_nonempty [of issue] show "typeVal (mapExtras rt ?ls c) \<noteq> []"
      by metis
  qed
  from m s t f show ?thesis by blast
qed

text \<open>A record with the labels bug and Features, in this order.\<close>

lemma two_labels:
  "issue_labels (example_issue\<lparr>label_nodes := [Some ''bug'', Some ''Features'']\<rparr>)
     = [''bug'', ''Features'']"
  by (simp add: issue_labels_def or_else_def)

theorem mapExtras_first_matching_witness:
  "first_matching ascii_runtime TYPE_LABELS [''bug'', ''Features'']
      (typeVal (mapExtras ascii_runtime [''bug'', ''Features''] []))
   \<and> typeVal (mapExtras ascii_runtime [''bug'', ''Features''] []) \<noteq> []"
  using mapExtras_first_matching
    [of ascii_runtime "example_issue\<lparr>label_nodes := [Some ''bug'', Some ''Features'']\<rparr>" "[]"]
  by (simp add: two_labels)

text \<open>
  The selection follows the order of the labels, not the order of the candidate list:
  with the labels Procurement, Planning the module is Procurement although Planning
  comes first in the list; and with the labels Bug, Features the type is Bug although
  the literal label Features is present.
\<close>

theorem mapExtras_precedence_counterexample:
  "moduleVal (mapExtras ascii_runtime [''Procurement'', ''Planning''] []) = ''Procurement''
   \<and> pick_by_precedence ascii_runtime [''Procurement'', ''Planning''] MODULE_LABELS = Some ''Planning''
   \<and> ''Features'' \<in> set [''Bug'', ''Features'']
   \<and> typeVal (mapExtras ascii_runtime [''Bug'', ''Features''] []) = ''Bug''"
  by code_simp

subsection \<open>Sequencing laws\<close>

lemma await_return [simp]: "await (return_val x) f = f x"
  by (rule ext) (simp add: await_def return_val_def)

lemma await_assoc: "await (await m f) g = await m (\<lambda>x. await (f x) g)"
  by (rule ext) (simp add: await_def split: option.splits sum.splits prod.splits)

lemma upsert_phases:
  assumes "hasRequired env (issue_labels issue)"
  shows "upsert env issue =
     await (prepare env issue) (\<lambda>props.
     await (total (findPageByIssueId env (issue_identifier issue))) (\<lambda>existing.
     await (write_page env props existing) (\<lambda>(pageId, action).
     finish env issue pageId action)))"
  using assms
  by (rule_tac ext) (simp add: upsert_def prepare_def write_page_def finish_def await_assoc Let_def)

lemma awaitE:
  assumes "await m f w = Some (r, w')"
  obtains (throws) e where "m w = Some (Inl e, w')" and "r = Inl e"
        | (continues) x w1 where "m w = Some (Inr x, w1)" and "f x w1 = Some (r, w')"
  using assms by (auto simp: await_def split: option.splits sum.splits prod.splits)

subsection \<open>Frames\<close>

lemma frame_refl: "frame R \<Longrightarrow> R w w"
  by (simp add: frame_def)

lemma frame_trans: "frame R \<Longrightarrow> R a b \<Longrightarrow> R b c \<Longrightarrow> R a c"
  unfolding frame_def by blast

lemma frame_cache: "frame R \<Longrightarrow> R w (w\<lparr>dbSchemaCache := c\<rparr>)"
  by (simp add: frame_def)

lemma frame_sleep: "frame R \<Longrightarrow> R w (sleep ms w)"
  by (simp add: frame_def)

lemma allows_fetch: "allows env R req \<Longrightarrow> fetch env req w = (r, w1) \<Longrightarrow> R w w1"
  unfolding allows_def by (metis snd_conv)

lemma getDatabase_frame:
  assumes "frame R" and "allows env R GetDatabase"
  shows "R w (snd (getDatabase env w))"
proof (cases "dbSchemaCache w")
  case (Some db)
  then show ?thesis using assms(1) by (simp add: getDatabase_def frame_refl)
next
  case None
  obtain r w1 where f: "fetch env GetDatabase w = (r, w1)" by (cases "fetch env GetDatabase w")
  from assms(2) f have s: "R w w1" by (rule allows_fetch)
  have "R w1 (w1\<lparr>dbSchemaCache := Some (db_of_body (json r))\<rparr>)"
    using assms(1) by (rule frame_cache)
  with s have "R w (w1\<lparr>dbSchemaCache := Some (db_of_body (json r))\<rparr>)"
    using assms(1) frame_trans by blast
  with s None f show ?thesis by (simp add: getDatabase_def Let_def)
qed

lemma getTitlePropertyName_frame:
  assumes "frame R" and "allows env R GetDatabase"
  shows "R w (snd (getTitlePropertyName env w))"
  using getDatabase_frame [OF assms, of w]
  by (cases "getDatabase env w")
     (auto simp: getTitlePropertyName_def split: sum.splits option.splits)

lemma ensureSelectOption_frame:
  assumes fr: "frame R" and g: "allows env R GetDatabase"
    and p: "\<And>pname tkey opts. allows env R (PatchDatabase pname tkey opts)"
  shows "R w (snd (ensureSelectOption env pname raw w))"
proof (cases "normalizeOptionName (js env) raw")
  case None
  then show ?thesis using fr by (simp add: ensureSelectOption_def frame_refl)
next
  case (Some opt)
  show ?thesis
  proof (cases "opt = []")
    case True
    with Some show ?thesis using fr by (simp add: ensureSelectOption_def frame_refl)
  next
    case False
    obtain r1 w1 where gd: "getDatabase env w = (r1, w1)" by (cases "getDatabase env w")
    with getDatabase_frame [OF fr g, of w] have s1: "R w w1" by simp
    show ?thesis
    proof (cases r1)
      case (Inl e)
      with Some False gd s1 show ?thesis by (simp add: ensureSelectOption_def)
    next
      case (Inr db)
      show ?thesis
      proof (cases "map_of db pname")
        case None
        with Some False gd Inr s1 show ?thesis by (simp add: ensureSelectOption_def)
      next
        case (Some pd)
        note pd = Some
        let ?req = "PatchDatabase pname (ptype pd) (poptions pd @ [opt])"
        obtain r2 w2 where f: "fetch env ?req w1 = (r2, w2)" by (cases "fetch env ?req w1")
        from p f have s2: "R w1 w2" by (rule allows_fetch)
        have s3: "R w2 (w2\<lparr>dbSchemaCache := None\<rparr>)" using fr by (rule frame_cache)
        have s4: "R (w2\<lparr>dbSchemaCache := None\<rparr>) (snd (getDatabase env (w2\<lparr>dbSchemaCache := None\<rparr>)))"
          using fr g by (rule getDatabase_frame)
        from s1 s2 have a: "R w w2" using fr frame_trans by blast
        with s3 s4 have b: "R w (snd (getDatabase env (w2\<lparr>dbSchemaCache := None\<rparr>)))"
          using fr frame_trans by blast
        from \<open>normalizeOptionName (js env) raw = Some opt\<close> False gd Inr pd f s1 a b show ?thesis
          by (cases "getDatabase env (w2\<lparr>dbSchemaCache := None\<rparr>)")
             (auto simp: ensureSelectOption_def Let_def split: sum.splits)
      qed
    qed
  qed
qed

lemma findPageByIssueId_frame:
  assumes "allows env R (QueryDatabase ident)"
  shows "R w (snd (findPageByIssueId env ident w))"
proof -
  obtain r w1 where f: "fetch env (QueryDatabase ident) w = (r, w1)"
    by (cases "fetch env (QueryDatabase ident) w")
  from assms f have "R w w1" by (rule allows_fetch)
  with f show ?thesis by (simp add: findPageByIssueId_def)
qed

lemma doFetch_induct [consumes 1, case_names final retry]:
  assumes run: "doFetch env req w = Some y"
    and final: "\<And>w r w1. fetch env req w = (r, w1) \<Longrightarrow> status r \<noteq> 429 \<Longrightarrow> P w (r, w1)"
    and retry: "\<And>w r w1 y. fetch env req w = (r, w1) \<Longrightarrow> status r = 429 \<Longrightarrow>
                 doFetch env req (sleep 500 w1) = Some y \<Longrightarrow> P (sleep 500 w1) y \<Longrightarrow> P w y"
  shows "P w y"
proof -
  have "doFetch e q w = Some y \<Longrightarrow> e = env \<and> q = req \<longrightarrow> doFetch env req w = Some y \<and> P w y" for e q
  proof (rule doFetch.raw_induct [where P = "\<lambda>e q w y. e = env \<and> q = req \<longrightarrow> doFetch env req w = Some y \<and> P w y"],
      goal_cases)
    case (1 df e' q' w' y')
    show ?case
    proof
      assume eq: "e' = env \<and> q' = req"
      obtain r1 w1 where f: "fetch env req w' = (r1, w1)" by (cases "fetch env req w'")
      show "doFetch env req w' = Some y' \<and> P w' y'"
      proof (cases "status r1 = 429")
        case True
        with 1(3) f eq have "df env req (sleep 500 w1) = Some y'" by simp
        from 1(2) [OF this]
        have ih: "doFetch env req (sleep 500 w1) = Some y' \<and> P (sleep 500 w1) y'" by simp
        with f True have "doFetch env req w' = Some y'" by (subst doFetch.simps) simp
        moreover from f True ih have "P w' y'" by (blast intro: retry)
        ultimately show ?thesis by simp
      next
        case False
        with 1(3) f eq have y: "y' = (r1, w1)" by simp
        with f False have "doFetch env req w' = Some y'" by (subst doFetch.simps) simp
        moreover from f False y have "P w' y'" by (simp add: final)
        ultimately show ?thesis by simp
      qed
    qed
  next
    case 2
    then show ?case by simp
  qed
  from this [OF run] show ?thesis by simp
qed

lemma doFetch_frame:
  assumes fr: "frame R" and al: "allows env R req" and run: "doFetch env req w = Some (r, w')"
  shows "R w w'"
proof -
  from run have "R w (snd (r, w'))"
  proof (induction rule: doFetch_induct)
    case (final w r w1)
    with al show ?case by (simp add: allows_fetch)
  next
    case (retry w r w1 y)
    from al retry(1) have "R w w1" by (rule allows_fetch)
    moreover from fr have "R w1 (sleep 500 w1)" by (rule frame_sleep)
    ultimately have "R w (sleep 500 w1)" using fr frame_trans by blast
    with retry(4) show ?case using fr frame_trans by blast
  qed
  then show ?thesis by simp
qed

lemma notionWrite_frame:
  assumes "frame R" and "allows env R req" and "notionWrite env req w = Some (r, w')"
  shows "R w w'"
proof -
  from assms(3) obtain resp where "doFetch env req w = Some (resp, w')"
    by (auto simp: notionWrite_def split: option.splits prod.splits if_splits)
  with assms(1,2) show ?thesis by (rule doFetch_frame)
qed


subsection \<open>Frames of the sequenced programs\<close>

lemma ensuresD: "ensures R m \<Longrightarrow> m w = Some (r, w') \<Longrightarrow> R w w'"
  unfolding ensures_def by blast

lemma ensures_await:
  assumes "frame R" and "ensures R m" and "\<And>x. ensures R (f x)"
  shows "ensures R (await m f)"
  unfolding ensures_def
proof (intro allI impI)
  fix w r w'
  assume "await m f w = Some (r, w')"
  then show "R w w'"
  proof (cases rule: awaitE)
    case (throws e)
    with assms(2) show ?thesis by (auto dest: ensuresD)
  next
    case (continues x w1)
    from assms(2) continues(1) have "R w w1" by (rule ensuresD)
    moreover from assms(3) continues(2) have "R w1 w'" by (rule ensuresD)
    ultimately show ?thesis using assms(1) frame_trans by blast
  qed
qed

lemma ensures_return: "frame R \<Longrightarrow> ensures R (return_val x)"
  by (simp add: ensures_def return_val_def frame_refl)

lemma ensures_nowISO: "frame R \<Longrightarrow> ensures R (nowISO env)"
  by (simp add: ensures_def nowISO_def frame_refl)

lemma ensures_total:
  assumes "\<And>w. R w (snd (m w))"
  shows "ensures R (total m)"
  unfolding ensures_def total_def
proof (intro allI impI)
  fix w r w'
  assume "Some (m w) = Some (r, w')"
  then have "snd (m w) = w'" by simp
  with assms [of w] show "R w w'" by simp
qed

lemma ensures_notionWrite: "frame R \<Longrightarrow> allows env R req \<Longrightarrow> ensures R (notionWrite env req)"
  unfolding ensures_def by (blast intro: notionWrite_frame)

lemma ensures_getDatabase:
  "frame R \<Longrightarrow> allows env R GetDatabase \<Longrightarrow> ensures R (total (getDatabase env))"
  by (rule ensures_total) (rule getDatabase_frame)

lemma ensures_getTitlePropertyName:
  "frame R \<Longrightarrow> allows env R GetDatabase \<Longrightarrow> ensures R (total (getTitlePropertyName env))"
  by (rule ensures_total) (rule getTitlePropertyName_frame)

lemma ensures_findPageByIssueId:
  "allows env R (QueryDatabase ident) \<Longrightarrow> ensures R (total (findPageByIssueId env ident))"
  by (rule ensures_total) (rule findPageByIssueId_frame)

lemma ensures_ensure_if_set:
  assumes "frame R" and "allows env R GetDatabase"
    and "\<And>pname tkey opts. allows env R (PatchDatabase pname tkey opts)"
  shows "ensures R (ensure_if_set env pname x)"
proof (cases "truthy x")
  case True
  have "ensures R (total (ensureSelectOption env pname (js_of x)))"
    by (rule ensures_total) (rule ensureSelectOption_frame [OF assms])
  with True show ?thesis by (simp add: ensure_if_set_def)
next
  case False
  with assms(1) show ?thesis by (simp add: ensure_if_set_def ensures_return)
qed

lemma ensures_prepare:
  assumes fr: "frame R" and g: "allows env R GetDatabase"
    and p: "\<And>pname tkey opts. allows env R (PatchDatabase pname tkey opts)"
  shows "ensures R (prepare env issue)"
  unfolding prepare_def Let_def
  by (intro ensures_await ensures_ensure_if_set ensures_getTitlePropertyName ensures_nowISO
        ensures_return ensures_getDatabase fr g p)

lemma ensures_write_page:
  assumes "frame R"
    and "\<And>pid. existing = Some pid \<Longrightarrow> allows env R (PatchPage (Some pid) props)"
    and "existing = None \<Longrightarrow> allows env R (CreatePage props)"
  shows "ensures R (write_page env props existing)"
  unfolding write_page_def using assms
  by (cases existing) (auto intro!: ensures_await ensures_notionWrite ensures_return)

lemma ensures_appendSyncComment:
  assumes "frame R" and "\<And>bs. allows env R (AppendChildren pageId bs)"
  shows "ensures R (appendSyncComment env pageId issue c)"
  unfolding ensures_def
proof (intro allI impI)
  fix w r w'
  assume a: "appendSyncComment env pageId issue c w = Some (r, w')"
  have "ensures R (await (notionWrite env (AppendChildren pageId bs)) (\<lambda>result. return_val ()))" for bs
    using assms by (intro ensures_await ensures_notionWrite ensures_return)
  with a show "R w w'"
    unfolding appendSyncComment_def Let_def by (blast dest: ensuresD)
qed

lemma ensures_finish:
  assumes fr: "frame R" and a: "\<And>bs. allows env R (AppendChildren pageId bs)"
    and l: "\<And>now. allows env R (PatchPage pageId [(''Last Sync'', Date now (Some ''Europe/Berlin''))])"
  shows "ensures R (finish env issue pageId action)"
  unfolding finish_def
  by (intro ensures_await ensures_appendSyncComment ensures_nowISO ensures_notionWrite
        ensures_return fr a l)


subsection \<open>What a single exchange changes\<close>

lemma serve_summary: "summary (snd (serve req w)) = summary w"
  by (cases req) (auto simp: serve_def Let_def split: option.splits)

lemma serve_trace: "trace (snd (serve req w)) = trace w"
  by (cases req) (auto simp: serve_def Let_def split: option.splits)

lemma serve_cache: "dbSchemaCache (snd (serve req w)) = dbSchemaCache w"
  by (cases req) (auto simp: serve_def Let_def split: option.splits)

lemma fetch_summary: "summary (snd (fetch env req w)) = summary w"
  using serve_summary [of req "w\<lparr>trace := trace w @ [Sent req]\<rparr>"]
  by (auto simp: fetch_def Let_def split: prod.splits)

lemma fetch_trace: "trace (snd (fetch env req w)) = trace w @ [Sent req]"
  using serve_trace [of req "w\<lparr>trace := trace w @ [Sent req]\<rparr>"]
  by (auto simp: fetch_def Let_def split: prod.splits)

lemma fetch_requests: "requests (snd (fetch env req w)) = requests w @ [req]"
  by (simp add: requests_def [of "snd (fetch env req w)"] fetch_trace)

lemma fetch_status: "status (fst (fetch env req w)) = fst (respond env (length (requests w)))"
  by (auto simp: fetch_def Let_def split: prod.splits)

lemma fetch_not_ok:
  "\<not> ok (fst (fetch env req w)) \<Longrightarrow> snd (fetch env req w) = w\<lparr>trace := trace w @ [Sent req]\<rparr>"
  by (auto simp: fetch_def Let_def ok_def split: prod.splits if_splits)

subsection \<open>The summary is only touched by the label guard and the driver\<close>

lemma frame_summary: "frame (\<lambda>w w'. summary w' = summary w)"
  by (simp add: frame_def)

lemma allows_summary: "allows env (\<lambda>w w'. summary w' = summary w) req"
  by (simp add: allows_def fetch_summary)

lemma write_page_action:
  assumes "write_page env props existing w = Some (Inr (pid, a), w')"
  shows "(existing = None \<longrightarrow> a = Created) \<and> (existing \<noteq> None \<longrightarrow> a = Updated \<and> pid = existing)"
  using assms
  by (cases existing) (auto simp: write_page_def return_val_def elim!: awaitE)

lemma finish_result:
  assumes "finish env issue pid a w = Some (Inr (a', pid'), w')"
  shows "a' = a \<and> pid' = pid"
  using assms unfolding finish_def
  by (auto simp: return_val_def elim!: awaitE)

lemma upsertE:
  assumes "hasRequired env (issue_labels issue)" and "upsert env issue w = Some (r, w')"
  obtains (prepare_throws) e where "prepare env issue w = Some (Inl e, w')" and "r = Inl e"
    | (lookup_throws) props wa e where "prepare env issue w = Some (Inr props, wa)"
        and "findPageByIssueId env (issue_identifier issue) wa = (Inl e, w')" and "r = Inl e"
    | (write_throws) props wa existing wl e where "prepare env issue w = Some (Inr props, wa)"
        and "findPageByIssueId env (issue_identifier issue) wa = (Inr existing, wl)"
        and "write_page env props existing wl = Some (Inl e, w')" and "r = Inl e"
    | (finishes) props wa existing wl pageId action wb where
        "prepare env issue w = Some (Inr props, wa)"
        and "findPageByIssueId env (issue_identifier issue) wa = (Inr existing, wl)"
        and "write_page env props existing wl = Some (Inr (pageId, action), wb)"
        and "finish env issue pageId action wb = Some (r, w')"
proof -
  from assms have run: "await (prepare env issue) (\<lambda>props.
     await (total (findPageByIssueId env (issue_identifier issue))) (\<lambda>existing.
     await (write_page env props existing) (\<lambda>(pageId, action).
     finish env issue pageId action))) w = Some (r, w')"
    by (simp add: upsert_phases)
  then show thesis
  proof (cases rule: awaitE)
    case (throws e)
    then show ?thesis by (rule prepare_throws)
  next
    case (continues props wa)
    note prep = continues(1)
    from continues(2) show ?thesis
    proof (cases rule: awaitE)
      case (throws e)
      with prep show ?thesis by (auto simp: total_def intro: lookup_throws)
    next
      case (continues existing wl)
      then have look: "findPageByIssueId env (issue_identifier issue) wa = (Inr existing, wl)"
        by (simp add: total_def)
      from continues(2) show ?thesis
      proof (cases rule: awaitE)
        case (throws e)
        with prep look show ?thesis by (auto intro: write_throws)
      next
        case inner: (continues y wb)
        obtain pageId action where y: "y = (pageId, action)" by (cases y)
        with inner prep look show ?thesis by (auto intro: finishes)
      qed
    qed
  qed
qed

lemma upsert_action:
  assumes "hasRequired env (issue_labels issue)"
    and "upsert env issue w = Some (Inr (a, pid), w')"
  shows "a = Created \<or> a = Updated"
  using assms
proof (cases rule: upsertE)
  case (finishes props wa existing wl pageId action wb)
  from finish_result [OF finishes(4)] have "a = action" by simp
  moreover from write_page_action [OF finishes(3)] have "action = Created \<or> action = Updated"
    by (cases existing) auto
  ultimately show ?thesis by simp
qed simp_all

lemma ensures_upsert:
  assumes fr: "frame R" and al: "\<And>req. allows env R req"
    and lab: "hasRequired env (issue_labels issue)"
  shows "ensures R (upsert env issue)"
  unfolding upsert_phases [OF lab]
  by (intro ensures_await ensures_prepare ensures_findPageByIssueId fr al)
     (auto intro!: ensures_await ensures_write_page ensures_finish fr al)

lemma upsert_summary:
  assumes "hasRequired env (issue_labels issue)" and "upsert env issue w = Some (r, w')"
  shows "summary w' = summary w"
  using ensures_upsert [OF frame_summary allows_summary assms(1)] assms(2)
  by (rule ensuresD)


subsection \<open>The label guard\<close>

text \<open>
  C2 (as amended): a record none of whose labels has the \<open>toLowerCase\<close> of the
  required label is skipped at once, whatever the built-in \<open>toLowerCase\<close> computes.
  Nothing is sent and nothing is waited for (the trace is unchanged), the destination
  and the schema cache are unchanged, the skipped counter grows by one, one line is
  appended to the itemized log, and the other counters are unchanged.
\<close>

theorem upsert_label_gate:
  assumes "\<not> hasRequired env (issue_labels issue)"
  shows "\<exists>w'. upsert env issue w = Some (Inr (Skipped, None), w')
     \<and> trace w' = trace w \<and> requests w' = requests w \<and> db_properties w' = db_properties w
     \<and> db_pages w' = db_pages w \<and> dbSchemaCache w' = dbSchemaCache w
     \<and> skippedNoLabel (summary w') = skippedNoLabel (summary w) + 1
     \<and> items (summary w') = items (summary w)
          @ [''Skipped (no label): '' @ issue_identifier issue @ dash @ template (title issue)]
     \<and> processed (summary w') = processed (summary w)
     \<and> created (summary w') = created (summary w)
     \<and> updated (summary w') = updated (summary w)
     \<and> errors (summary w') = errors (summary w)"
  using assms by (simp add: upsert_def Let_def)

lemma unlabelled_not_required: "\<not> hasRequired example_env (issue_labels unlabelled_issue)"
  by code_simp

theorem upsert_label_gate_witness:
  "\<exists>w'. upsert example_env unlabelled_issue (start example_db []) = Some (Inr (Skipped, None), w')
     \<and> trace w' = [] \<and> skippedNoLabel (summary w') = 1"
  using upsert_label_gate [OF unlabelled_not_required, of "start example_db []"]
  by (auto simp: start_def summary0_def)

text \<open>
  The log line is a change of the summary besides the counter: after the skip of the
  example record the itemized log differs from the one before.
\<close>

theorem upsert_label_gate_counterexample:
  "items (summary (snd (the (upsert example_env unlabelled_issue (start example_db [])))))
     \<noteq> items (summary (start example_db []))"
  using unlabelled_not_required
  by (simp add: upsert_def Let_def start_def summary0_def)

subsection \<open>The driver\<close>

lemma loop_body_skip:
  assumes "\<not> hasRequired env (issue_labels issue)"
  shows "loop_body env issue w =
     Some (sleep 200 (w\<lparr>summary := (summary w)
              \<lparr>processed := processed (summary w) + 1,
               skippedNoLabel := skippedNoLabel (summary w) + 1,
               items := items (summary w)
                  @ [''Skipped (no label): '' @ issue_identifier issue @ dash @ template (title issue)]\<rparr>\<rparr>))"
  using assms by (simp add: loop_body_def upsert_def Let_def)

lemma loop_body_cases:
  assumes "loop_body env issue w = Some w'"
  shows "\<exists>line.
       summary w' = (summary w)\<lparr>processed := processed (summary w) + 1,
                      skippedNoLabel := skippedNoLabel (summary w) + 1,
                      items := items (summary w) @ [line]\<rparr>
     \<or> summary w' = (summary w)\<lparr>processed := processed (summary w) + 1,
                      created := created (summary w) + 1,
                      items := items (summary w) @ [line]\<rparr>
     \<or> summary w' = (summary w)\<lparr>processed := processed (summary w) + 1,
                      updated := updated (summary w) + 1,
                      items := items (summary w) @ [line]\<rparr>
     \<or> summary w' = (summary w)\<lparr>processed := processed (summary w) + 1,
                      errors := errors (summary w) + 1,
                      items := items (summary w) @ [line]\<rparr>"
proof (cases "hasRequired env (issue_labels issue)")
  case False
  from loop_body_skip [OF this, of w] assms show ?thesis by auto
next
  case True
  let ?w0 = "w\<lparr>summary := (summary w)\<lparr>processed := processed (summary w) + 1\<rparr>\<rparr>"
  from assms obtain r w1 where run: "upsert env issue ?w0 = Some (r, w1)"
    by (auto simp: loop_body_def Let_def split: option.splits)
  from upsert_summary [OF True run] have s: "summary w1 = (summary w)\<lparr>processed := processed (summary w) + 1\<rparr>"
    by simp
  show ?thesis
  proof (cases r)
    case (Inl e)
    obtain msg where "e = Error msg" by (cases e)
    with assms run Inl s show ?thesis by (auto simp: loop_body_def Let_def)
  next
    case (Inr res)
    obtain a pid where res: "res = (a, pid)" by (cases res)
    with True run Inr have "a = Created \<or> a = Updated" by (auto dest: upsert_action)
    with assms run Inr res s show ?thesis by (auto simp: loop_body_def Let_def)
  qed
qed

lemma loop_body_balanced:
  assumes "loop_body env issue w = Some w'" and "balanced (summary w)"
  shows "balanced (summary w') \<and> processed (summary w') = processed (summary w) + 1"
  using loop_body_cases [OF assms(1)] assms(2) by (auto simp: balanced_def)

lemma for_each_balanced:
  "for_each env edges w = Some w' \<Longrightarrow> balanced (summary w) \<Longrightarrow>
   balanced (summary w') \<and> processed (summary w') = processed (summary w) + length edges"
proof (induction edges arbitrary: w)
  case Nil
  then show ?case by simp
next
  case (Cons issue rest)
  from Cons.prems(1) obtain w1 where b: "loop_body env issue w = Some w1"
    and r: "for_each env rest w1 = Some w'"
    by (auto split: option.splits)
  from loop_body_balanced [OF b Cons.prems(2)] Cons.IH [OF r] show ?case by simp
qed

lemma for_each_append:
  "for_each env (a @ b) w = (case for_each env a w of None \<Rightarrow> None | Some w1 \<Rightarrow> for_each env b w1)"
  by (induction a arbitrary: w) (auto split: option.splits)

lemma main_for_each:
  "main env feed w = Some out \<Longrightarrow> for_each env (feed_issues feed) w = Some (final_world out)"
proof (induction env feed w rule: main.induct)
  case (1 env st tx edges nxt w)
  show ?case
  proof (cases "200 \<le> st \<and> st \<le> 299")
    case False
    with 1(2) show ?thesis by auto
  next
    case True
    with 1(2) obtain w1 where fe: "for_each env edges w = Some w1"
      by (auto split: option.splits)
    show ?thesis
    proof (cases nxt)
      case None
      with True fe 1(2) show ?thesis by (auto simp: for_each_append)
    next
      case (Some f)
      with True fe 1(2) have m: "main env f w1 = Some out" by simp
      from 1(1) [OF _ fe Some m] True fe Some show ?thesis by (auto simp: for_each_append)
    qed
  qed
qed

lemma main_outcome:
  "main env feed w = Some out \<Longrightarrow>
   out = (case feed_failure feed of
            Some (st, tx) \<Rightarrow>
              Fatal (Error (''Linear GraphQL failed '' @ string_of_nat st @ '': '' @ tx)) (final_world out)
          | None \<Rightarrow> Finished (final_world out))"
proof (induction env feed w rule: main.induct)
  case (1 env st tx edges nxt w)
  show ?case
  proof (cases "200 \<le> st \<and> st \<le> 299")
    case False
    with 1(2) show ?thesis by auto
  next
    case True
    with 1(2) obtain w1 where fe: "for_each env edges w = Some w1"
      by (auto split: option.splits)
    show ?thesis
    proof (cases nxt)
      case None
      with True fe 1(2) show ?thesis by auto
    next
      case (Some f)
      with True fe 1(2) have m: "main env f w1 = Some out" by simp
      from 1(1) [OF _ fe Some m] True Some show ?thesis by simp
    qed
  qed
qed

text \<open>
  C10: when the summary is balanced at the start of the loop (as the initial, all-zero
  summary is), it is balanced after every run, finished or aborted: processed is the
  sum of created, updated, skipped and errors, and the log holds one line per processed
  record. Every record the feed yields is processed, so each of them ends in exactly
  one of the four outcomes.
\<close>

theorem main_accounting:
  assumes "main env feed w = Some out" and "balanced (summary w)"
  shows "balanced (summary (final_world out))
     \<and> processed (summary (final_world out)) = processed (summary w) + length (feed_issues feed)"
  using for_each_balanced [OF main_for_each [OF assms(1)] assms(2)] .

lemma example_run_returns: "main example_env example_feed (start example_db []) \<noteq> None"
  by code_simp

theorem main_accounting_witness:
  "balanced (summary (final_world (the (main example_env example_feed (start example_db [])))))
   \<and> processed (summary (final_world (the (main example_env example_feed (start example_db []))))) = 3"
proof -
  from example_run_returns obtain out
    where run: "main example_env example_feed (start example_db []) = Some out" by auto
  have "balanced (summary (start example_db []))"
    by (simp add: start_def summary0_def balanced_def)
  from main_accounting [OF run this] run show ?thesis
    by (simp add: start_def summary0_def example_feed_def)
qed


subsection \<open>Error propagation\<close>

text \<open>
  C5: a run ends in a fatal error exactly when a page request of the feed is answered
  with a non-success status, and the error carries that status and the response text;
  the run stops at that page, and it has gone through the loop for every record the
  feed yielded before. An exception thrown by the upsert of a record is caught in the
  loop: the error counter grows by one, a line with the record's identifier and the
  message is appended to the log, and after the pause of the loop the run goes on with
  the next record.
\<close>

theorem error_propagation:
  "(main env feed w = Some out \<longrightarrow>
      out = (case feed_failure feed of
               Some (st, tx) \<Rightarrow>
                 Fatal (Error (''Linear GraphQL failed '' @ string_of_nat st @ '': '' @ tx)) (final_world out)
             | None \<Rightarrow> Finished (final_world out))
      \<and> for_each env (feed_issues feed) w = Some (final_world out))
   \<and> (\<not> (200 \<le> st \<and> st \<le> 299) \<longrightarrow>
        main env (Reply st tx edges nxt) w
          = Some (Fatal (Error (''Linear GraphQL failed '' @ string_of_nat st @ '': '' @ tx)) w))
   \<and> (upsert env issue (w\<lparr>summary := (summary w)\<lparr>processed := processed (summary w) + 1\<rparr>\<rparr>)
          = Some (Inl (Error msg), w1) \<longrightarrow>
        for_each env (issue # rest) w
          = for_each env rest
              (sleep 200
                (w1\<lparr>summary := (summary w1)
                      \<lparr>errors := errors (summary w1) + 1,
                       items := items (summary w1)
                          @ [''Error: '' @ issue_identifier issue @ dash @ msg]\<rparr>\<rparr>)))"
proof (intro conjI impI)
  assume "main env feed w = Some out"
  then show "out = (case feed_failure feed of
               Some (st, tx) \<Rightarrow>
                 Fatal (Error (''Linear GraphQL failed '' @ string_of_nat st @ '': '' @ tx)) (final_world out)
             | None \<Rightarrow> Finished (final_world out))"
    by (rule main_outcome)
next
  assume "main env feed w = Some out"
  then show "for_each env (feed_issues feed) w = Some (final_world out)"
    by (rule main_for_each)
next
  assume "\<not> (200 \<le> st \<and> st \<le> 299)"
  then show "main env (Reply st tx edges nxt) w
          = Some (Fatal (Error (''Linear GraphQL failed '' @ string_of_nat st @ '': '' @ tx)) w)"
    by simp
next
  assume "upsert env issue (w\<lparr>summary := (summary w)\<lparr>processed := processed (summary w) + 1\<rparr>\<rparr>)
          = Some (Inl (Error msg), w1)"
  then show "for_each env (issue # rest) w
          = for_each env rest
              (sleep 200
                (w1\<lparr>summary := (summary w1)
                      \<lparr>errors := errors (summary w1) + 1,
                       items := items (summary w1)
                          @ [''Error: '' @ issue_identifier issue @ dash @ msg]\<rparr>\<rparr>))"
    by (simp add: loop_body_def Let_def)
qed

lemma failing_run_returns: "main failing_env failing_feed (start example_db []) \<noteq> None"
  by code_simp

lemma failing_upsert:
  "upsert failing_env example_issue
     ((start example_db [])\<lparr>summary := (summary (start example_db []))
          \<lparr>processed := processed (summary (start example_db [])) + 1\<rparr>\<rparr>)
   = Some (Inl (Error ''Get database failed 500: boom''),
           (start example_db [])\<lparr>trace := [Sent GetDatabase], summary := summary0\<lparr>processed := 1\<rparr>\<rparr>)"
  by code_simp

lemma string_of_nat_503: "string_of_nat 503 = ''503''"
  by code_simp

theorem error_propagation_witness:
  "main failing_env failing_feed (start example_db [])
     = Some (Fatal (Error ''Linear GraphQL failed 503: upstream down'')
               ((start example_db [])
                 \<lparr>trace := [Sent GetDatabase, Slept 200],
                  summary := summary0\<lparr>processed := 1, errors := 1,
                     items := [''Error: ENG-1'' @ dash @ ''Get database failed 500: boom'']\<rparr>\<rparr>))
   \<and> main failing_env (Reply 503 ''upstream down'' [unlabelled_issue] None) (start example_db [])
     = Some (Fatal (Error ''Linear GraphQL failed 503: upstream down'') (start example_db []))
   \<and> for_each failing_env [example_issue] (start example_db [])
     = Some ((start example_db [])
          \<lparr>trace := [Sent GetDatabase, Slept 200],
           summary := summary0\<lparr>processed := 1, errors := 1,
              items := [''Error: ENG-1'' @ dash @ ''Get database failed 500: boom'']\<rparr>\<rparr>)"
proof -
  from failing_run_returns obtain out
    where run: "main failing_env failing_feed (start example_db []) = Some out" by auto
  note inst = error_propagation [of failing_env failing_feed "start example_db []" out
      503 "''upstream down''" "[unlabelled_issue]" None example_issue
      "''Get database failed 500: boom''"
      "(start example_db [])\<lparr>trace := [Sent GetDatabase], summary := summary0\<lparr>processed := 1\<rparr>\<rparr>" "[]"]
  from inst have b: "main failing_env (Reply 503 ''upstream down'' [unlabelled_issue] None) (start example_db [])
     = Some (Fatal (Error ''Linear GraphQL failed 503: upstream down'') (start example_db []))"
    by (simp add: string_of_nat_503)
  from inst failing_upsert have c: "for_each failing_env [example_issue] (start example_db [])
     = Some ((start example_db [])
          \<lparr>trace := [Sent GetDatabase, Slept 200],
           summary := summary0\<lparr>processed := 1, errors := 1,
              items := [''Error: ENG-1'' @ dash @ ''Get database failed 500: boom'']\<rparr>\<rparr>)"
    by (simp add: example_issue_def summary0_def start_def sleep_def)
  from inst run have "out = Fatal (Error ''Linear GraphQL failed 503: upstream down'') (final_world out)"
    and "for_each failing_env (feed_issues failing_feed) (start example_db []) = Some (final_world out)"
    by (simp_all add: failing_feed_def string_of_nat_503)
  with c run have a: "main failing_env failing_feed (start example_db [])
     = Some (Fatal (Error ''Linear GraphQL failed 503: upstream down'')
               ((start example_db [])
                 \<lparr>trace := [Sent GetDatabase, Slept 200],
                  summary := summary0\<lparr>processed := 1, errors := 1,
                     items := [''Error: ENG-1'' @ dash @ ''Get database failed 500: boom'']\<rparr>\<rparr>))"
    by (simp add: failing_feed_def)
  from a b c show ?thesis by simp
qed

subsection \<open>The retry loop\<close>

lemma fetch_rate_limited:
  assumes "fst (respond env (length (requests w))) = 429"
  shows "fetch env req w =
     (\<lparr>status = 429, err_text = snd (respond env (length (requests w))), json = BOther\<rparr>,
      w\<lparr>trace := trace w @ [Sent req]\<rparr>)"
  using assms by (auto simp: fetch_def Let_def split: prod.splits)

lemma sleep_after_send:
  "sleep 500 (w\<lparr>trace := trace w @ [Sent req]\<rparr>) = w\<lparr>trace := trace w @ [Sent req, Slept 500]\<rparr>"
  by (simp add: sleep_def)

lemma doFetch_retry:
  "\<forall>i<n. fst (respond env (length (requests w) + i)) = 429 \<Longrightarrow>
   fst (respond env (length (requests w) + n)) \<noteq> 429 \<Longrightarrow>
   doFetch env req w = Some (fetch env req (w\<lparr>trace := trace w @ retries n req\<rparr>))"
proof (induction n arbitrary: w)
  case 0
  obtain r w1 where f: "fetch env req w = (r, w1)" by (cases "fetch env req w")
  with fetch_status [of env req w] 0(2) have "status r \<noteq> 429" by simp
  with f show ?case by (subst doFetch.simps) simp
next
  case (Suc n)
  let ?w1 = "w\<lparr>trace := trace w @ [Sent req, Slept 500]\<rparr>"
  from Suc.prems(1) have first: "fst (respond env (length (requests w))) = 429"
    by (metis add.right_neutral zero_less_Suc)
  have len: "length (requests ?w1) = Suc (length (requests w))"
    by simp
  have a: "\<forall>i<n. fst (respond env (length (requests ?w1) + i)) = 429"
    using Suc.prems(1) unfolding len by (auto simp: less_Suc_eq_0_disj)
  have b: "fst (respond env (length (requests ?w1) + n)) \<noteq> 429"
    using Suc.prems(2) unfolding len by simp
  from Suc.IH [OF a b]
  have "doFetch env req ?w1 = Some (fetch env req (w\<lparr>trace := trace w @ retries (Suc n) req\<rparr>))"
    by simp
  with fetch_rate_limited [OF first, of req] show ?case
    by (subst doFetch.simps) (simp add: sleep_after_send)
qed

lemma doFetch_diverges:
  assumes "\<forall>i. fst (respond env (length (requests w) + i)) = 429"
  shows "doFetch env req w = None"
proof (rule ccontr)
  assume "doFetch env req w \<noteq> None"
  then obtain y where run: "doFetch env req w = Some y" by auto
  from run have "(\<forall>i. fst (respond env (length (requests w) + i)) = 429) \<longrightarrow> False"
  proof (induction rule: doFetch_induct)
    case (final w r w1)
    with fetch_status [of env req w] show ?case
      by (metis add.right_neutral fst_conv)
  next
    case (retry w r w1 y)
    from retry(1) fetch_requests [of env req w]
    have "requests (sleep 500 w1) = requests w @ [req]" by simp
    then have "(\<forall>i. fst (respond env (length (requests w) + i)) = 429) \<Longrightarrow>
               (\<forall>i. fst (respond env (length (requests (sleep 500 w1)) + i)) = 429)"
      by (metis add_Suc_shift length_append_singleton)
    with retry(4) show ?case by blast
  qed
  with assms show False by simp
qed

lemma doFetch_final:
  assumes "doFetch env req w = Some (r, w')"
  shows "\<exists>n. fetch env req (w\<lparr>trace := trace w @ retries n req\<rparr>) = (r, w')
            \<and> status r \<noteq> 429
            \<and> (\<forall>i<n. fst (respond env (length (requests w) + i)) = 429)"
proof -
  from assms have "\<exists>n. fetch env req (w\<lparr>trace := trace w @ retries n req\<rparr>) = (r, w')
            \<and> status (fst (r, w')) \<noteq> 429
            \<and> (\<forall>i<n. fst (respond env (length (requests w) + i)) = 429)"
  proof (induction rule: doFetch_induct)
    case (final w r1 w1)
    then have "fetch env req (w\<lparr>trace := trace w @ retries 0 req\<rparr>) = (r1, w1)
        \<and> status (fst (r1, w1)) \<noteq> 429
        \<and> (\<forall>i<0. fst (respond env (length (requests w) + i)) = 429)" by simp
    then show ?case by blast
  next
    case (retry w r1 w1 y)
    from retry(1,2) fetch_status [of env req w]
    have first: "fst (respond env (length (requests w))) = 429" by simp
    from fetch_rate_limited [OF this, of req] retry(1)
    have w1: "sleep 500 w1 = w\<lparr>trace := trace w @ [Sent req, Slept 500]\<rparr>"
      by (simp add: sleep_after_send)
    from retry(4) obtain n where
      n: "fetch env req ((sleep 500 w1)\<lparr>trace := trace (sleep 500 w1) @ retries n req\<rparr>) = y"
        "status (fst y) \<noteq> 429"
        "\<forall>i<n. fst (respond env (length (requests (sleep 500 w1)) + i)) = 429"
      by (cases y) auto
    have len: "length (requests (sleep 500 w1)) = Suc (length (requests w))"
      unfolding w1 by simp
    from n(1) have 1: "fetch env req (w\<lparr>trace := trace w @ retries (Suc n) req\<rparr>) = y"
      unfolding w1 by simp
    from n(3) first have 2: "\<forall>i<Suc n. fst (respond env (length (requests w) + i)) = 429"
      unfolding len by (auto simp: less_Suc_eq_0_disj)
    from 1 n(2) 2 show ?case by (cases y) blast
  qed
  then show ?thesis by simp
qed


subsection \<open>The pages of the destination\<close>

lemma frame_pages: "frame (\<lambda>w w'. db_pages w' = db_pages w)"
  by (simp add: frame_def)

lemma fetch_pages_GetDatabase: "db_pages (snd (fetch env GetDatabase w)) = db_pages w"
  by (auto simp: fetch_def serve_def Let_def split: prod.splits)

lemma fetch_pages_PatchDatabase:
  "db_pages (snd (fetch env (PatchDatabase pname tkey opts) w)) = db_pages w"
  by (auto simp: fetch_def serve_def Let_def split: prod.splits)

lemma fetch_pages_QueryDatabase: "db_pages (snd (fetch env (QueryDatabase ident) w)) = db_pages w"
  by (auto simp: fetch_def serve_def Let_def split: prod.splits)

lemma prepare_pages:
  assumes "prepare env issue w = Some (r, wa)"
  shows "db_pages wa = db_pages w"
proof -
  have "ensures (\<lambda>w w'. db_pages w' = db_pages w) (prepare env issue)"
    by (intro ensures_prepare frame_pages)
       (simp_all add: allows_def fetch_pages_GetDatabase fetch_pages_PatchDatabase)
  from ensuresD [OF this assms] show ?thesis .
qed

lemma matching_pages_head:
  assumes "matching_pages ident ps = i # rest"
  shows "i < length ps \<and> linear_issue_id (ps ! i) = Some ident"
proof -
  from assms have "i \<in> set (matching_pages ident ps)" by simp
  then show ?thesis by (auto simp: matching_pages_def)
qed

lemma matching_pages_Nil:
  assumes "matching_pages ident ps = []"
  shows "Some ident \<notin> set (map linear_issue_id ps)"
proof
  assume "Some ident \<in> set (map linear_issue_id ps)"
  then obtain i where "i < length ps" "linear_issue_id (ps ! i) = Some ident"
    by (auto simp: in_set_conv_nth)
  then have "i \<in> set (matching_pages ident ps)" by (simp add: matching_pages_def)
  with assms show False by simp
qed

lemma findPageByIssueId_result:
  assumes "findPageByIssueId env ident w = (r, w1)"
  shows "db_pages w1 = db_pages w
     \<and> (\<forall>i. r = Inr (Some i) \<longrightarrow> i < length (db_pages w) \<and> page_ids w ! i = Some ident)
     \<and> (r = Inr None \<longrightarrow> \<not> has_page ident w)"
proof -
  obtain resp w2 where f: "fetch env (QueryDatabase ident) w = (resp, w2)"
    by (cases "fetch env (QueryDatabase ident) w")
  with fetch_pages_QueryDatabase [of env ident w] assms have p: "db_pages w1 = db_pages w"
    by (auto simp: findPageByIssueId_def split: if_splits)
  show ?thesis
  proof (cases "ok resp")
    case False
    with f assms p show ?thesis by (auto simp: findPageByIssueId_def)
  next
    case True
    with f have j: "json resp = BResults (take 1 (matching_pages ident (db_pages w)))"
      by (auto simp: fetch_def serve_def Let_def ok_def split: prod.splits if_splits)
    from True f assms have r: "r = Inr (first_result (json resp))"
      by (auto simp: findPageByIssueId_def)
    show ?thesis
    proof (cases "matching_pages ident (db_pages w)")
      case Nil
      with matching_pages_Nil [OF this] j r p show ?thesis
        by (simp add: first_result_def has_page_def page_ids_def)
    next
      case (Cons i rest)
      with matching_pages_head [OF this] j r p show ?thesis
        by (simp add: first_result_def page_ids_def)
    qed
  qed
qed

lemma frame_ids: "frame (\<lambda>w w'. page_ids w' = page_ids w)"
  by (simp add: frame_def page_ids_def)

lemma fetch_ids_AppendChildren:
  "page_ids (snd (fetch env (AppendChildren pageId bs) w)) = page_ids w"
  by (auto simp: fetch_def serve_def Let_def page_ids_def linear_issue_id_def map_update
      list_update_same_conv split: prod.splits option.splits)

lemma linear_issue_id_merge:
  "linear_issue_id (p\<lparr>page_props := AList.merge (page_props p) ps\<rparr>) =
     (case map_of ps ''Linear Issue ID'' of
        None \<Rightarrow> linear_issue_id p
      | Some v \<Rightarrow> (case v of RichText cs \<Rightarrow> Some (concat cs) | _ \<Rightarrow> None))"
  by (auto simp: linear_issue_id_def AList.merge_conv' map_add_def split: option.splits)

lemma fetch_ids_PatchPage_other:
  assumes "map_of ps ''Linear Issue ID'' = None"
  shows "page_ids (snd (fetch env (PatchPage pageId ps) w)) = page_ids w"
  using assms
  by (auto simp: fetch_def serve_def Let_def page_ids_def linear_issue_id_merge map_update
      list_update_same_conv split: prod.splits option.splits)

lemma fetch_ids_PatchPage_same:
  assumes "map_of ps ''Linear Issue ID'' = Some (RichText [ident])"
    and "pid < length (page_ids w)" and "page_ids w ! pid = Some ident"
  shows "page_ids (snd (fetch env (PatchPage (Some pid) ps) w)) = page_ids w"
  using assms
  by (auto simp: fetch_def serve_def Let_def page_ids_def linear_issue_id_merge map_update
      list_update_same_conv split: prod.splits option.splits)

lemma fetch_ids_CreatePage:
  assumes "map_of ps ''Linear Issue ID'' = Some (RichText [ident])"
    and "fetch env (CreatePage ps) w = (resp, w')"
  shows "page_ids w' = (if ok resp then page_ids w @ [Some ident] else page_ids w)
     \<and> (ok resp \<longrightarrow> json resp = BPage (length (db_pages w)))"
  using assms
  by (auto simp: fetch_def serve_def Let_def page_ids_def linear_issue_id_def ok_def
      split: prod.splits if_splits)

lemma finish_ids:
  assumes "finish env issue pageId action w = Some (r, w')"
  shows "page_ids w' = page_ids w"
proof -
  have "ensures (\<lambda>w w'. page_ids w' = page_ids w) (finish env issue pageId action)"
    by (intro ensures_finish frame_ids)
       (simp_all add: allows_def fetch_ids_AppendChildren fetch_ids_PatchPage_other)
  from ensuresD [OF this assms] show ?thesis .
qed


subsection \<open>The properties of the write\<close>

lemma prepare_props:
  assumes "prepare env issue w = Some (Inr props, wa)"
  shows "\<exists>t db now. props = written_props (js env) t db now issue"
  using assms unfolding prepare_def Let_def
  by (elim awaitE) (auto simp: return_val_def written_props_def Let_def)

lemma map_of_spread:
  "map_of (spread c k v ps) k' = (if c \<and> k' = k then Some v else map_of ps k')"
  by (simp add: spread_def update_conv')

lemma map_of_update:
  "map_of (AList.update k v ps) k' = (if k' = k then Some v else map_of ps k')"
  by (simp add: update_conv')

lemma map_of_add_title_text:
  "k \<noteq> ''Title'' \<Longrightarrow> map_of (add_title_text db issue ps) k = map_of ps k"
  by (simp add: add_title_text_def update_conv')

lemma written_props_id:
  "map_of (written_props rt t db now issue) ''Linear Issue ID'' = Some (RichText [issue_identifier issue])"
  by (simp add: written_props_def Let_def map_of_add_title_text build_props_def object_literal_def
      map_of_spread map_of_update)


lemma map_of_build_props:
  "map_of (build_props t issue sN pV mN saN tN cN now) k =
     (if k = ''Description'' then Some (RichText (toRichTextArray (Some (or_else (description issue) []))))
      else if k = ''Last Sync'' then Some (Date now (Some ''Europe/Berlin''))
      else if truthy cN \<and> k = ''Cycle'' then Some (Select (or_else cN []))
      else if truthy tN \<and> k = ''Type'' then Some (Select (or_else tN []))
      else if truthy saN \<and> k = ''Sub-Area'' then Some (Select (or_else saN []))
      else if truthy mN \<and> k = ''Module'' then Some (Select (or_else mN []))
      else if truthy (dueDate issue) \<and> k = ''Due Date'' then Some (Date (or_else (dueDate issue) []) None)
      else if truthy pV \<and> k = ''Priority'' then Some (Select (or_else pV []))
      else if truthy sN \<and> k = ''Status'' then Some (Select (or_else sN []))
      else if k = ''Linear URL'' then Some (Url (url issue))
      else if k = ''Linear Issue ID'' then Some (RichText [issue_identifier issue])
      else if k = t then Some (Title (or_else (title issue) []))
      else None)"
  by (simp only: build_props_def object_literal_def foldl.simps map_of_spread map_of_update
      map_of.simps)

lemma build_props_Status:
  "map_of (build_props t issue sN pV mN saN tN cN now) ''Status'' =
     (if truthy (sN) then Some (Select (or_else sN []))
      else if t = ''Status'' then Some (Title (or_else (title issue) [])) else None)"
  by (simp add: map_of_build_props)

lemma build_props_Priority:
  "map_of (build_props t issue sN pV mN saN tN cN now) ''Priority'' =
     (if truthy (pV) then Some (Select (or_else pV []))
      else if t = ''Priority'' then Some (Title (or_else (title issue) [])) else None)"
  by (simp add: map_of_build_props)

lemma build_props_Due_Date:
  "map_of (build_props t issue sN pV mN saN tN cN now) ''Due Date'' =
     (if truthy (dueDate issue) then Some (Date (or_else (dueDate issue) []) None)
      else if t = ''Due Date'' then Some (Title (or_else (title issue) [])) else None)"
  by (simp add: map_of_build_props)

lemma build_props_Module:
  "map_of (build_props t issue sN pV mN saN tN cN now) ''Module'' =
     (if truthy (mN) then Some (Select (or_else mN []))
      else if t = ''Module'' then Some (Title (or_else (title issue) [])) else None)"
  by (simp add: map_of_build_props)

lemma build_props_Sub_Area:
  "map_of (build_props t issue sN pV mN saN tN cN now) ''Sub-Area'' =
     (if truthy (saN) then Some (Select (or_else saN []))
      else if t = ''Sub-Area'' then Some (Title (or_else (title issue) [])) else None)"
  by (simp add: map_of_build_props)

lemma build_props_Type:
  "map_of (build_props t issue sN pV mN saN tN cN now) ''Type'' =
     (if truthy (tN) then Some (Select (or_else tN []))
      else if t = ''Type'' then Some (Title (or_else (title issue) [])) else None)"
  by (simp add: map_of_build_props)

lemma build_props_Cycle:
  "map_of (build_props t issue sN pV mN saN tN cN now) ''Cycle'' =
     (if truthy (cN) then Some (Select (or_else cN []))
      else if t = ''Cycle'' then Some (Title (or_else (title issue) [])) else None)"
  by (simp add: map_of_build_props)

lemmas build_props_fields = build_props_Status build_props_Priority build_props_Due_Date
  build_props_Module build_props_Sub_Area build_props_Type build_props_Cycle

lemma written_props_fields:
  "list_all (\<lambda>(k, v). map_of (written_props rt t db now issue) k =
       (if truthy v then Some (if k = ''Due Date'' then Date (or_else v []) None else Select (or_else v []))
        else if t = k then Some (Title (or_else (title issue) [])) else None))
     (optional_fields rt issue)"
  by (simp add: optional_fields_def Let_def written_props_def map_of_add_title_text
      build_props_fields)

lemma written_props_field:
  assumes "(k, v) \<in> set (optional_fields rt issue)"
  shows "map_of (written_props rt t db now issue) k =
     (if truthy v then Some (if k = ''Due Date'' then Date (or_else v []) None else Select (or_else v []))
      else if t = k then Some (Title (or_else (title issue) [])) else None)"
  using written_props_fields [of rt t db now issue] assms
  unfolding list_all_iff by blast

lemma written_props_description:
  "map_of (written_props rt t db now issue) ''Description''
     = Some (RichText (toRichTextArray (Some (or_else (description issue) []))))"
  by (simp add: written_props_def Let_def map_of_add_title_text map_of_build_props)

subsection \<open>The requests of an upsert\<close>

lemma frame_trace: "frame (trace_all Q)"
  unfolding frame_def trace_all_def
proof (intro conjI allI impI)
  fix w
  have "requests w = requests w @ [] \<and> list_all Q []" by simp
  then show "\<exists>rs. requests w = requests w @ rs \<and> list_all Q rs" by blast
next
  fix a b c
  assume "\<exists>rs. requests b = requests a @ rs \<and> list_all Q rs"
    and "\<exists>rs. requests c = requests b @ rs \<and> list_all Q rs"
  then obtain r1 r2 where "requests b = requests a @ r1" "list_all Q r1"
    "requests c = requests b @ r2" "list_all Q r2" by blast
  then have "requests c = requests a @ (r1 @ r2) \<and> list_all Q (r1 @ r2)" by simp
  then show "\<exists>rs. requests c = requests a @ rs \<and> list_all Q rs" by blast
next
  fix w c
  have "requests (w\<lparr>dbSchemaCache := c\<rparr>) = requests w @ [] \<and> list_all Q []" by simp
  then show "\<exists>rs. requests (w\<lparr>dbSchemaCache := c\<rparr>) = requests w @ rs \<and> list_all Q rs" by blast
next
  fix w ms
  have "requests (sleep ms w) = requests w @ [] \<and> list_all Q []" by simp
  then show "\<exists>rs. requests (sleep ms w) = requests w @ rs \<and> list_all Q rs" by blast
qed

lemma allows_trace: "Q req \<Longrightarrow> allows env (trace_all Q) req"
  unfolding allows_def trace_all_def
proof
  fix w
  assume "Q req"
  then have "requests (snd (fetch env req w)) = requests w @ [req] \<and> list_all Q [req]"
    by (simp add: fetch_requests)
  then show "\<exists>rs. requests (snd (fetch env req w)) = requests w @ rs \<and> list_all Q rs" by blast
qed

lemma trace_all_sent: "trace_all Q w w' \<Longrightarrow> req \<in> set (sent w w') \<Longrightarrow> Q req"
  by (auto simp: trace_all_def sent_def list_all_iff)

lemma length_page_ids: "length (page_ids w) = length (db_pages w)"
  by (simp add: page_ids_def)

lemma upsert_trace:
  assumes lab: "hasRequired env (issue_labels issue)"
    and run: "upsert env issue w = Some (r, w')"
    and g: "Q GetDatabase"
    and p: "\<And>pname tkey opts. Q (PatchDatabase pname tkey opts)"
    and q: "Q (QueryDatabase (issue_identifier issue))"
    and a: "\<And>ref bs. Q (AppendChildren ref bs)"
    and l: "\<And>ref now. Q (PatchPage ref [(''Last Sync'', Date now (Some ''Europe/Berlin''))])"
    and u: "\<And>t db now pid. pid < length (page_ids w) \<Longrightarrow>
              page_ids w ! pid = Some (issue_identifier issue) \<Longrightarrow>
              Q (PatchPage (Some pid) (written_props (js env) t db now issue))"
    and c: "\<And>t db now. \<not> has_page (issue_identifier issue) w \<Longrightarrow>
              Q (CreatePage (written_props (js env) t db now issue))"
  shows "trace_all Q w w'"
proof -
  note fr = frame_trace [of Q]
  have prep: "ensures (trace_all Q) (prepare env issue)"
    by (intro ensures_prepare fr allows_trace g p)
  have look: "trace_all Q wa (snd (findPageByIssueId env (issue_identifier issue) wa))" for wa
    by (intro findPageByIssueId_frame allows_trace q)
  have fin: "ensures (trace_all Q) (finish env issue pageId action)" for pageId action
    by (intro ensures_finish fr allows_trace a l)
  have wr: "ensures (trace_all Q) (write_page env props existing)"
    if "prepare env issue w = Some (Inr props, wa)"
      and "findPageByIssueId env (issue_identifier issue) wa = (Inr existing, wl)"
    for props existing wa wl
  proof -
    from prepare_props [OF that(1)] obtain t db now
      where props: "props = written_props (js env) t db now issue" by blast
    from prepare_pages [OF that(1)] have pg: "db_pages wa = db_pages w" .
    then have pi: "page_ids wa = page_ids w" and hp: "has_page (issue_identifier issue) wa
        = has_page (issue_identifier issue) w"
      by (simp_all add: page_ids_def has_page_def)
    from findPageByIssueId_result [OF that(2)]
    have "\<forall>i. existing = Some i \<longrightarrow>
                i < length (db_pages wa) \<and> page_ids wa ! i = Some (issue_identifier issue)"
      and "existing = None \<longrightarrow> \<not> has_page (issue_identifier issue) wa"
      by simp_all
    with pg pi hp
    have ex: "\<forall>i. existing = Some i \<longrightarrow>
                i < length (page_ids w) \<and> page_ids w ! i = Some (issue_identifier issue)"
      and nex: "existing = None \<longrightarrow> \<not> has_page (issue_identifier issue) w"
      by (simp_all add: length_page_ids)
    show ?thesis
    proof (rule ensures_write_page [OF fr])
      fix pid assume "existing = Some pid"
      with ex props show "allows env (trace_all Q) (PatchPage (Some pid) props)"
        by (auto intro!: allows_trace u)
    next
      assume "existing = None"
      with nex props show "allows env (trace_all Q) (CreatePage props)"
        by (auto intro!: allows_trace c)
    qed
  qed
  from lab run show ?thesis
  proof (cases rule: upsertE)
    case (prepare_throws e)
    with prep show ?thesis by (auto dest: ensuresD)
  next
    case (lookup_throws props wa e)
    from ensuresD [OF prep lookup_throws(1)] have 1: "trace_all Q w wa" .
    from look [of wa] lookup_throws(2) have 2: "trace_all Q wa w'" by simp
    from 1 2 show ?thesis using fr frame_trans by blast
  next
    case (write_throws props wa existing wl e)
    from ensuresD [OF prep write_throws(1)] have 1: "trace_all Q w wa" .
    from look [of wa] write_throws(2) have 2: "trace_all Q wa wl" by simp
    from ensuresD [OF wr [OF write_throws(1,2)] write_throws(3)] have 3: "trace_all Q wl w'" .
    from 1 2 3 show ?thesis using fr frame_trans by blast
  next
    case (finishes props wa existing wl pageId action wb)
    from ensuresD [OF prep finishes(1)] have 1: "trace_all Q w wa" .
    from look [of wa] finishes(2) have 2: "trace_all Q wa wl" by simp
    from ensuresD [OF wr [OF finishes(1,2)] finishes(3)] have 3: "trace_all Q wl wb" .
    from ensuresD [OF fin finishes(4)] have 4: "trace_all Q wb w'" .
    from 1 2 3 4 show ?thesis using fr frame_trans by blast
  qed
qed


subsection \<open>The identifiers of the pages across an upsert\<close>

lemma page_ids_cache: "page_ids (w\<lparr>dbSchemaCache := c\<rparr>) = page_ids w"
  by (simp add: page_ids_def)

lemma page_ids_trace: "page_ids (w\<lparr>trace := t\<rparr>) = page_ids w"
  by (simp add: page_ids_def)

lemma page_ids_sleep: "page_ids (sleep ms w) = page_ids w"
  by (simp add: page_ids_def)

lemma notionWrite_final:
  assumes "notionWrite env req w = Some (r, w')"
  shows "\<exists>n resp. fetch env req (w\<lparr>trace := trace w @ retries n req\<rparr>) = (resp, w')
            \<and> status resp \<noteq> 429
            \<and> (\<forall>i<n. fst (respond env (length (requests w) + i)) = 429)
            \<and> r = (if ok resp then Inr (json resp)
                    else Inl (Error (method_of req @ '' '' @ endpoint_of req @ '' failed ''
                            @ string_of_nat (status resp) @ '': '' @ err_text resp)))"
proof -
  from assms obtain resp where d: "doFetch env req w = Some (resp, w')"
    and r: "r = (if ok resp then Inr (json resp)
                    else Inl (Error (method_of req @ '' '' @ endpoint_of req @ '' failed ''
                            @ string_of_nat (status resp) @ '': '' @ err_text resp)))"
    by (auto simp: notionWrite_def split: option.splits prod.splits if_splits)
  from doFetch_final [OF d] r show ?thesis by blast
qed

lemma write_page_update_ids:
  assumes run: "write_page env props (Some pid) w = Some (r, w')"
    and props: "map_of props ''Linear Issue ID'' = Some (RichText [ident])"
    and pid: "pid < length (page_ids w)" "page_ids w ! pid = Some ident"
  shows "page_ids w' = page_ids w \<and> (\<forall>x. r = Inr x \<longrightarrow> x = (Some pid, Updated))"
proof -
  let ?R = "\<lambda>a b. pid < length (page_ids a) \<and> page_ids a ! pid = Some ident
              \<longrightarrow> page_ids b = page_ids a"
  have fr: "frame ?R" by (auto simp: frame_def page_ids_cache page_ids_sleep)
  have al: "allows env ?R (PatchPage (Some pid) props)"
    unfolding allows_def using props by (simp add: fetch_ids_PatchPage_same)
  from run have "(\<exists>e. notionWrite env (PatchPage (Some pid) props) w = Some (Inl e, w') \<and> r = Inl e)
      \<or> (\<exists>b. notionWrite env (PatchPage (Some pid) props) w = Some (Inr b, w')
             \<and> r = Inr (Some pid, Updated))"
    unfolding write_page_def by (auto elim!: awaitE simp: return_val_def)
  then obtain res where nw: "notionWrite env (PatchPage (Some pid) props) w = Some (res, w')"
    and r: "\<forall>x. r = Inr x \<longrightarrow> x = (Some pid, Updated)" by auto
  from notionWrite_frame [OF fr al nw] pid r show ?thesis by simp
qed

lemma write_page_create_ids:
  assumes run: "write_page env props None w = Some (r, w')"
    and props: "map_of props ''Linear Issue ID'' = Some (RichText [ident])"
  shows "case r of
           Inl e \<Rightarrow> page_ids w' = page_ids w
         | Inr x \<Rightarrow> page_ids w' = page_ids w @ [Some ident]
                     \<and> x = (Some (length (page_ids w)), Created)"
proof -
  from run have "(\<exists>e. notionWrite env (CreatePage props) w = Some (Inl e, w') \<and> r = Inl e)
      \<or> (\<exists>b. notionWrite env (CreatePage props) w = Some (Inr b, w')
             \<and> r = Inr (id_of_body b, Created))"
    unfolding write_page_def by (auto elim!: awaitE simp: return_val_def)
  then show ?thesis
  proof (elim disjE exE conjE)
    fix e
    assume nw: "notionWrite env (CreatePage props) w = Some (Inl e, w')" and r: "r = Inl e"
    from notionWrite_final [OF nw] obtain n resp
      where f: "fetch env (CreatePage props) (w\<lparr>trace := trace w @ retries n (CreatePage props)\<rparr>)
                  = (resp, w')" and nok: "\<not> ok resp"
      by (auto split: if_splits)
    from fetch_ids_CreatePage [OF props f] nok r show ?thesis by (simp add: page_ids_trace)
  next
    fix b
    assume nw: "notionWrite env (CreatePage props) w = Some (Inr b, w')"
      and r: "r = Inr (id_of_body b, Created)"
    from notionWrite_final [OF nw] obtain n resp
      where f: "fetch env (CreatePage props) (w\<lparr>trace := trace w @ retries n (CreatePage props)\<rparr>)
                  = (resp, w')" and okr: "ok resp" and b: "b = json resp"
      by (auto split: if_splits)
    from fetch_ids_CreatePage [OF props f] okr r b show ?thesis
      by (simp add: page_ids_trace id_of_body_def length_page_ids)
  qed
qed

lemma upsert_ids:
  assumes lab: "hasRequired env (issue_labels issue)"
    and run: "upsert env issue w = Some (r, w')"
  shows "case r of
           Inl e \<Rightarrow> page_ids w' = page_ids w
                    \<or> (\<not> has_page (issue_identifier issue) w
                        \<and> page_ids w' = page_ids w @ [Some (issue_identifier issue)])
         | Inr (a, p) \<Rightarrow>
             (a = Updated \<and> page_ids w' = page_ids w
                \<and> (\<exists>pid. p = Some pid \<and> pid < length (page_ids w)
                      \<and> page_ids w ! pid = Some (issue_identifier issue)))
             \<or> (a = Created \<and> \<not> has_page (issue_identifier issue) w
                  \<and> page_ids w' = page_ids w @ [Some (issue_identifier issue)]
                  \<and> p = Some (length (page_ids w)))"
proof -
  let ?id = "issue_identifier issue"
  have wr: "(case existing of
               Some pid \<Rightarrow> pid < length (page_ids w) \<and> page_ids w ! pid = Some ?id
                 \<and> page_ids wb = page_ids w \<and> (\<forall>x. rw = Inr x \<longrightarrow> x = (Some pid, Updated))
             | None \<Rightarrow> \<not> has_page ?id w \<and>
                 (case rw of
                    Inl e \<Rightarrow> page_ids wb = page_ids w
                  | Inr x \<Rightarrow> page_ids wb = page_ids w @ [Some ?id]
                       \<and> x = (Some (length (page_ids w)), Created)))"
    if p: "prepare env issue w = Some (Inr props, wa)"
      and f: "findPageByIssueId env ?id wa = (Inr existing, wl)"
      and w: "write_page env props existing wl = Some (rw, wb)"
    for props existing wa wl rw wb
  proof -
    from prepare_props [OF p] written_props_id
    have props: "map_of props ''Linear Issue ID'' = Some (RichText [?id])" by auto
    from prepare_pages [OF p] have pg: "db_pages wa = db_pages w" .
    then have pi: "page_ids wa = page_ids w" and hp: "has_page ?id wa = has_page ?id w"
      by (simp_all add: page_ids_def has_page_def)
    from findPageByIssueId_result [OF f]
    have "db_pages wl = db_pages wa"
      and "\<forall>i. existing = Some i \<longrightarrow> i < length (db_pages wa) \<and> page_ids wa ! i = Some ?id"
      and "existing = None \<longrightarrow> \<not> has_page ?id wa"
      by simp_all
    with pg pi hp
    have pl: "page_ids wl = page_ids w"
      and ex: "\<forall>i. existing = Some i \<longrightarrow> i < length (page_ids w) \<and> page_ids w ! i = Some ?id"
      and nex: "existing = None \<longrightarrow> \<not> has_page ?id w"
      by (simp_all add: length_page_ids) (simp add: page_ids_def)
    show ?thesis
    proof (cases existing)
      case None
      with write_page_create_ids [OF _ props, of env wl rw wb] w nex pl show ?thesis
        by (auto split: sum.splits)
    next
      case (Some pid)
      with ex have "pid < length (page_ids wl)" "page_ids wl ! pid = Some ?id"
        by (simp_all add: pl)
      from write_page_update_ids [OF _ props this, of env rw wb] w Some ex pl show ?thesis
        by simp
    qed
  qed
  from lab run show ?thesis
  proof (cases rule: upsertE)
    case (prepare_throws e)
    with prepare_pages [OF prepare_throws(1)] show ?thesis by (simp add: page_ids_def)
  next
    case (lookup_throws props wa e)
    from prepare_pages [OF lookup_throws(1)] findPageByIssueId_result [OF lookup_throws(2)]
      lookup_throws(3)
    show ?thesis by (simp add: page_ids_def)
  next
    case (write_throws props wa existing wl e)
    from wr [OF write_throws(1,2,3)] write_throws(4) show ?thesis
      by (auto split: option.splits)
  next
    case (finishes props wa existing wl pageId action wb)
    from finish_ids [OF finishes(4)] have f: "page_ids w' = page_ids wb" .
    show ?thesis
    proof (cases r)
      case (Inl e)
      with wr [OF finishes(1,2,3)] f show ?thesis by (auto split: option.splits)
    next
      case (Inr x)
      obtain a p where x: "x = (a, p)" by (cases x)
      with Inr finish_result [of env issue pageId action wb a p w'] finishes(4)
      have "a = action" "p = pageId" by simp_all
      with wr [OF finishes(1,2,3)] f Inr x show ?thesis by (auto split: option.splits)
    qed
  qed
qed

subsection \<open>Absent values and the written properties\<close>

lemma upsert_page_writes:
  assumes "upsert env issue w = Some (r, w')" and "req \<in> set (sent w w')"
  shows "page_write (js env) issue req"
proof (cases "hasRequired env (issue_labels issue)")
  case False
  with assms(1) have "requests w' = requests w" by (auto simp: upsert_def Let_def)
  with assms(2) show ?thesis by (simp add: sent_def)
next
  case True
  have "trace_all (page_write (js env) issue) w w'"
    by (rule upsert_trace [OF True assms(1)]) (auto simp: page_write_def)
  from trace_all_sent [OF this assms(2)] show ?thesis .
qed

lemma optional_fields_keys:
  "list_all (\<lambda>(k, v). k \<noteq> ''Last Sync'') (optional_fields rt issue)"
  by (simp add: optional_fields_def Let_def)

text \<open>
  C6 (as amended): in every create or update request that the upsert of a record sends,
  each of status, priority, due date, module, sub-area, type and cycle whose mapped
  value is absent has no entry (its key is missing, or it is the name of the title
  property and carries the title). The Description entry is not omitted: every create
  carries it, and so does every update but the final Last Sync patch, with the chunks
  of the description, which are none when the description is empty or absent.
\<close>

theorem written_properties:
  assumes "upsert env issue w = Some (r, w')" and "req \<in> set (sent w w')"
    and "req = CreatePage ps \<or> req = PatchPage ref ps"
  shows "(\<forall>(k, v) \<in> set (optional_fields (js env) issue). \<not> truthy v \<longrightarrow>
             map_of ps k = None \<or> map_of ps k = Some (Title (or_else (title issue) [])))
     \<and> (map_of ps ''Description''
           = Some (RichText (toRichTextArray (Some (or_else (description issue) []))))
         \<or> (\<exists>now. req = PatchPage ref [(''Last Sync'', Date now (Some ''Europe/Berlin''))]))"
proof -
  from upsert_page_writes [OF assms(1,2)] assms(3)
  consider (props) t db now where "ps = written_props (js env) t db now issue"
    | (last) now where "req = PatchPage ref ps" "ps = [(''Last Sync'', Date now (Some ''Europe/Berlin''))]"
    by (auto simp: page_write_def)
  then show ?thesis
  proof cases
    case props
    have "map_of ps k = None \<or> map_of ps k = Some (Title (or_else (title issue) []))"
      if "(k, v) \<in> set (optional_fields (js env) issue)" and "\<not> truthy v" for k v
      using written_props_field [OF that(1), of t db now] that(2) props by simp
    with props written_props_description [of "js env" t db now issue] show ?thesis by auto
  next
    case last
    have "map_of ps k = None" if "(k, v) \<in> set (optional_fields (js env) issue)" for k v
      using optional_fields_keys [of "js env" issue] that last(2) unfolding list_all_iff by auto
    with last show ?thesis by auto
  qed
qed

lemma example_upsert_returns:
  "upsert example_env example_issue (start example_db []) \<noteq> None"
  by code_simp

lemma example_create_sent:
  "CreatePage
     [(''Name'', Title ''Fix it''), (''Linear Issue ID'', RichText [''ENG-1'']),
      (''Linear URL'', Url ''https://linear.app/ENG-1''), (''Status'', Select ''In Progress''),
      (''Priority'', Select ''High''), (''Type'', Select ''Bug''),
      (''Last Sync'', Date ''2026-01-01T00:00:00.000Z'' (Some ''Europe/Berlin'')),
      (''Description'', RichText [])]
   \<in> set (sent (start example_db [])
             (snd (the (upsert example_env example_issue (start example_db [])))))"
  by code_simp

lemma example_due_date: "(''Due Date'', None) \<in> set (optional_fields (js example_env) example_issue)"
  by code_simp

theorem written_properties_witness:
  "(map_of [(''Name'', Title ''Fix it''), (''Linear Issue ID'', RichText [''ENG-1'']),
      (''Linear URL'', Url ''https://linear.app/ENG-1''), (''Status'', Select ''In Progress''),
      (''Priority'', Select ''High''), (''Type'', Select ''Bug''),
      (''Last Sync'', Date ''2026-01-01T00:00:00.000Z'' (Some ''Europe/Berlin'')),
      (''Description'', RichText [])] ''Due Date'' = None
    \<or> map_of [(''Name'', Title ''Fix it''), (''Linear Issue ID'', RichText [''ENG-1'']),
      (''Linear URL'', Url ''https://linear.app/ENG-1''), (''Status'', Select ''In Progress''),
      (''Priority'', Select ''High''), (''Type'', Select ''Bug''),
      (''Last Sync'', Date ''2026-01-01T00:00:00.000Z'' (Some ''Europe/Berlin'')),
      (''Description'', RichText [])] ''Due Date'' = Some (Title (or_else (title example_issue) [])))"
proof -
  from example_upsert_returns
  have run: "upsert example_env example_issue (start example_db [])
    = Some (fst (the (upsert example_env example_issue (start example_db []))),
            snd (the (upsert example_env example_issue (start example_db []))))"
    by auto
  from written_properties [OF run example_create_sent, of _ None] example_due_date
  show ?thesis by (auto simp: truthy_def)
qed

text \<open>
  The Description entry is written although the description is absent: the example
  record has none, and the create request of its upsert carries Description with no
  chunk.
\<close>

theorem written_properties_counterexample:
  "description example_issue = None
   \<and> requests (snd (the (upsert example_env example_issue (start example_db [])))) ! 6
     = CreatePage
         [(''Name'', Title ''Fix it''), (''Linear Issue ID'', RichText [''ENG-1'']),
          (''Linear URL'', Url ''https://linear.app/ENG-1''), (''Status'', Select ''In Progress''),
          (''Priority'', Select ''High''), (''Type'', Select ''Bug''),
          (''Last Sync'', Date ''2026-01-01T00:00:00.000Z'' (Some ''Europe/Berlin'')),
          (''Description'', RichText [])]"
  by code_simp

subsection \<open>One iteration of the driver and the pages\<close>

lemma page_ids_summary: "page_ids (w\<lparr>summary := s\<rparr>) = page_ids w"
  by (simp add: page_ids_def)

lemma has_page_summary: "has_page j (w\<lparr>summary := s\<rparr>) = has_page j w"
  by (simp add: has_page_def page_ids_summary)

lemma has_page_append: "has_page j w \<Longrightarrow> page_ids w' = page_ids w @ xs \<Longrightarrow> has_page j w'"
  by (simp add: has_page_def)

text \<open>
  What one iteration does to the pages and to the counters: it adds at most one page,
  and only for a labelled record that had none; it counts a creation only when it
  added that page; and a labelled record that is not counted as an error has a page
  afterwards.
\<close>

lemma loop_body_outcome:
  assumes "loop_body env issue w = Some w'"
  shows "(page_ids w' = page_ids w \<and> created (summary w') = created (summary w)
          \<or> hasRequired env (issue_labels issue) \<and> \<not> has_page (issue_identifier issue) w
             \<and> page_ids w' = page_ids w @ [Some (issue_identifier issue)]
             \<and> created (summary w') \<le> created (summary w) + 1)
     \<and> errors (summary w) \<le> errors (summary w')
     \<and> (hasRequired env (issue_labels issue) \<and> \<not> has_page (issue_identifier issue) w'
          \<longrightarrow> errors (summary w') = errors (summary w) + 1)"
proof (cases "hasRequired env (issue_labels issue)")
  case False
  from loop_body_skip [OF this, of w] assms False show ?thesis
    by (auto simp: page_ids_def)
next
  case True
  let ?id = "issue_identifier issue"
  let ?w0 = "w\<lparr>summary := (summary w)\<lparr>processed := processed (summary w) + 1\<rparr>\<rparr>"
  from assms obtain r w1 where run: "upsert env issue ?w0 = Some (r, w1)"
    by (auto simp: loop_body_def Let_def split: option.splits)
  from upsert_summary [OF True run]
  have s: "summary w1 = (summary w)\<lparr>processed := processed (summary w) + 1\<rparr>" by simp
  note ids = upsert_ids [OF True run, unfolded page_ids_summary has_page_summary]
  show ?thesis
  proof (cases r)
    case (Inl e)
    obtain msg where e: "e = Error msg" by (cases e)
    with assms run Inl
    have w': "w' = sleep 200 (w1\<lparr>summary := (summary w1)
                     \<lparr>errors := errors (summary w1) + 1,
                      items := items (summary w1)
                        @ [''Error: '' @ issue_identifier issue @ dash @ msg]\<rparr>\<rparr>)"
      by (simp add: loop_body_def Let_def)
    from ids Inl have "page_ids w1 = page_ids w
        \<or> (\<not> has_page ?id w \<and> page_ids w1 = page_ids w @ [Some ?id])" by simp
    with w' s True show ?thesis by (auto simp: page_ids_summary page_ids_sleep)
  next
    case (Inr x)
    obtain a p where x: "x = (a, p)" by (cases x)
    from ids Inr x
    consider (upd) pid where "a = Updated" "page_ids w1 = page_ids w"
        "pid < length (page_ids w)" "page_ids w ! pid = Some ?id"
      | (cre) "a = Created" "\<not> has_page ?id w" "page_ids w1 = page_ids w @ [Some ?id]"
      by auto
    then show ?thesis
    proof cases
      case upd
      from upd(3,4) have hp: "has_page ?id w"
        unfolding has_page_def by (metis nth_mem)
      from assms run Inr x upd(1)
      have w': "w' = sleep 200 (w1\<lparr>summary := (summary w1)
                     \<lparr>updated := updated (summary w1) + 1,
                      items := items (summary w1)
                        @ [''Updated: '' @ issue_identifier issue @ dash @ template (title issue)]\<rparr>\<rparr>)"
        by (simp add: loop_body_def Let_def)
      with s upd(2) hp show ?thesis
        by (auto simp: page_ids_summary page_ids_sleep has_page_def)
    next
      case cre
      from assms run Inr x cre(1)
      have w': "w' = sleep 200 (w1\<lparr>summary := (summary w1)
                     \<lparr>created := created (summary w1) + 1,
                      items := items (summary w1)
                        @ [''Created: '' @ issue_identifier issue @ dash @ template (title issue)]\<rparr>\<rparr>)"
        by (simp add: loop_body_def Let_def)
      with s cre True show ?thesis
        by (auto simp: page_ids_summary page_ids_sleep has_page_def)
    qed
  qed
qed


subsection \<open>Rate limiting\<close>

lemma serve_trace_update:
  "serve req (w\<lparr>trace := t\<rparr>) = (fst (serve req w), (snd (serve req w))\<lparr>trace := t\<rparr>)"
  by (cases req) (auto simp: serve_def Let_def split: option.splits)

lemma fetch_ok:
  assumes "200 \<le> fst (respond env (length (requests w)))"
    and "fst (respond env (length (requests w))) \<le> 299"
  shows "fetch env req w =
     (\<lparr>status = fst (respond env (length (requests w))),
       err_text = snd (respond env (length (requests w))),
       json = fst (serve req w)\<rparr>,
      (snd (serve req w))\<lparr>trace := trace w @ [Sent req]\<rparr>)"
  using assms by (auto simp: fetch_def Let_def serve_trace_update split: prod.splits)

lemma notionWrite_after_retries:
  assumes "\<forall>i<n. fst (respond env (length (requests w) + i)) = 429"
    and "fst (respond env (length (requests w) + n)) \<noteq> 429"
  shows "notionWrite env req w =
     (case fetch env req (w\<lparr>trace := trace w @ retries n req\<rparr>) of
        (resp, w') \<Rightarrow>
          Some (if ok resp then Inr (json resp)
                else Inl (Error (method_of req @ '' '' @ endpoint_of req @ '' failed ''
                        @ string_of_nat (status resp) @ '': '' @ err_text resp)),
                w'))"
  using doFetch_retry [OF assms, of req]
  by (auto simp: notionWrite_def split: prod.splits)

lemma notionWrite_success_once:
  assumes "\<forall>i<n. fst (respond env (length (requests w) + i)) = 429"
    and "200 \<le> fst (respond env (length (requests w) + n))"
    and "fst (respond env (length (requests w) + n)) \<le> 299"
  shows "notionWrite env req w =
     Some (Inr (fst (serve req w)),
           (snd (serve req w))\<lparr>trace := trace w @ retries n req @ [Sent req]\<rparr>)"
proof -
  let ?w = "w\<lparr>trace := trace w @ retries n req\<rparr>"
  from assms(3) have "fst (respond env (length (requests w) + n)) \<noteq> 429" by auto
  note nw = notionWrite_after_retries [OF assms(1) this, of req]
  have len: "length (requests ?w) = length (requests w) + n"
    by simp
  from assms(2,3) have "200 \<le> fst (respond env (length (requests ?w)))"
    and "fst (respond env (length (requests ?w))) \<le> 299" unfolding len by simp_all
  from fetch_ok [OF this, of req] nw assms(2,3) show ?thesis
    by (simp add: ok_def serve_trace_update len)
qed

lemma notionWrite_diverges:
  assumes "\<forall>i. fst (respond env (length (requests w) + i)) = 429"
  shows "notionWrite env req w = None"
  using doFetch_diverges [OF assms, of req] by (simp add: notionWrite_def)

lemma loop_body_once:
  assumes "loop_body env issue w = Some w'"
  shows "created (summary w') + updated (summary w') \<le> created (summary w) + updated (summary w) + 1
     \<and> length (db_pages w') \<le> length (db_pages w) + 1"
proof -
  from loop_body_cases [OF assms]
  have "created (summary w') + updated (summary w') \<le> created (summary w) + updated (summary w) + 1"
    by auto
  moreover from loop_body_outcome [OF assms] have "length (page_ids w') \<le> length (page_ids w) + 1"
    by auto
  ultimately show ?thesis by (simp add: length_page_ids)
qed

(*C4*)

subsection \<open>Idempotence of the upsert\<close>

lemma upsert_no_create:
  assumes "has_page (issue_identifier issue) w" and "upsert env issue w = Some (r, w')"
    and "req \<in> set (sent w w')"
  shows "\<not> is_create req"
proof (cases "hasRequired env (issue_labels issue)")
  case False
  with assms(2) have "requests w' = requests w" by (auto simp: upsert_def Let_def)
  with assms(3) show ?thesis by (simp add: sent_def)
next
  case True
  have "trace_all (\<lambda>req. \<not> is_create req) w w'"
    by (rule upsert_trace [OF True assms(2)]) (use assms(1) in \<open>auto simp: is_create_def\<close>)
  from trace_all_sent [OF this assms(3)] show ?thesis .
qed

lemma trace_ext: "trace_all (\<lambda>req. True) w w' \<Longrightarrow> \<exists>rs. requests w' = requests w @ rs"
  by (auto simp: trace_all_def)

lemma upsert_update_sent:
  assumes lab: "hasRequired env (issue_labels issue)"
    and run: "upsert env issue w = Some (Inr (Updated, p), w')"
  shows "\<exists>pid ps. p = Some pid \<and> PatchPage (Some pid) ps \<in> set (sent w w')"
  using lab run
proof (cases rule: upsertE)
  case (finishes props wa existing wl pageId action wb)
  note fr = frame_trace [of "\<lambda>req. True"]
  have "ensures (trace_all (\<lambda>req. True)) (prepare env issue)"
    by (intro ensures_prepare fr allows_trace) simp_all
  from trace_ext [OF ensuresD [OF this finishes(1)]]
  obtain rs1 where 1: "requests wa = requests w @ rs1" by blast
  have "allows env (trace_all (\<lambda>req. True)) (QueryDatabase (issue_identifier issue))"
    by (rule allows_trace) simp
  from findPageByIssueId_frame [OF this, of wa]
  have "trace_all (\<lambda>req. True) wa (snd (findPageByIssueId env (issue_identifier issue) wa))" .
  with finishes(2) have "trace_all (\<lambda>req. True) wa wl" by simp
  from trace_ext [OF this] obtain rs2 where 2: "requests wl = requests wa @ rs2" by blast
  have "ensures (trace_all (\<lambda>req. True)) (finish env issue pageId action)"
    by (intro ensures_finish fr allows_trace) simp_all
  from trace_ext [OF ensuresD [OF this finishes(4)]]
  obtain rs3 where 3: "requests w' = requests wb @ rs3" by blast
  from finish_result [OF finishes(4)] have ap: "action = Updated" "pageId = p" by simp_all
  from write_page_action [OF finishes(3)] ap obtain pid where ex: "existing = Some pid" and p: "p = Some pid"
    by (cases existing) auto
  from finishes(3) ex obtain b where nw: "notionWrite env (PatchPage (Some pid) props) wl = Some (Inr b, wb)"
    unfolding write_page_def by (auto elim!: awaitE simp: return_val_def)
  from notionWrite_final [OF nw] obtain n resp where
    f: "fetch env (PatchPage (Some pid) props)
          (wl\<lparr>trace := trace wl @ retries n (PatchPage (Some pid) props)\<rparr>) = (resp, wb)"
    by blast
  from fetch_requests [of env "PatchPage (Some pid) props"
      "wl\<lparr>trace := trace wl @ retries n (PatchPage (Some pid) props)\<rparr>"] f
  have 4: "requests wb = requests wl @ replicate n (PatchPage (Some pid) props)
              @ [PatchPage (Some pid) props]" by simp
  from 1 2 3 4 have "PatchPage (Some pid) props \<in> set (sent w w')"
    by (simp add: sent_def)
  with p show ?thesis by blast
qed simp_all

lemma upsert_existing:
  assumes hp: "has_page (issue_identifier issue) w" and run: "upsert env issue w = Some (r, w')"
  shows "(\<forall>p. r \<noteq> Inr (Created, p))
     \<and> (\<forall>req \<in> set (sent w w'). \<not> is_create req)
     \<and> page_ids w' = page_ids w
     \<and> (\<forall>p. r = Inr (Updated, p) \<longrightarrow>
           (\<exists>pid ps. p = Some pid \<and> pid < length (page_ids w)
              \<and> page_ids w ! pid = Some (issue_identifier issue)
              \<and> PatchPage (Some pid) ps \<in> set (sent w w')))"
proof (cases "hasRequired env (issue_labels issue)")
  case False
  with run have "r = Inr (Skipped, None)" "requests w' = requests w" "page_ids w' = page_ids w"
    by (auto simp: upsert_def Let_def page_ids_def)
  then show ?thesis by (simp add: sent_def)
next
  case True
  from upsert_ids [OF True run] hp
  have a: "\<forall>p. r \<noteq> Inr (Created, p)" and b: "page_ids w' = page_ids w"
    and c: "\<forall>p. r = Inr (Updated, p) \<longrightarrow>
           (\<exists>pid. p = Some pid \<and> pid < length (page_ids w)
              \<and> page_ids w ! pid = Some (issue_identifier issue))"
    by (auto split: sum.splits)
  have d: "\<forall>req \<in> set (sent w w'). \<not> is_create req"
    using upsert_no_create [OF hp run] by blast
  have e: "\<exists>pid ps. p = Some pid \<and> pid < length (page_ids w)
              \<and> page_ids w ! pid = Some (issue_identifier issue)
              \<and> PatchPage (Some pid) ps \<in> set (sent w w')" if "r = Inr (Updated, p)" for p
  proof -
    from c that obtain pid where "p = Some pid" "pid < length (page_ids w)"
      "page_ids w ! pid = Some (issue_identifier issue)" by blast
    moreover from upsert_update_sent [OF True] run that
    obtain pid' ps where "p = Some pid'" "PatchPage (Some pid') ps \<in> set (sent w w')" by blast
    ultimately show ?thesis by auto
  qed
  from a b d e show ?thesis by blast
qed


subsection \<open>Runs and the pages\<close>

lemma has_page_cong: "page_ids w = page_ids w' \<Longrightarrow> has_page j w = has_page j w'"
  by (simp add: has_page_def)

lemma hasRequired_cong:
  "REQUIRED_LABEL env = REQUIRED_LABEL env' \<Longrightarrow> js env = js env' \<Longrightarrow>
   hasRequired env ls = hasRequired env' ls"
  by (simp add: hasRequired_def)

lemma unsynced_cong:
  assumes "page_ids w = page_ids w'" and "REQUIRED_LABEL env = REQUIRED_LABEL env'"
    and "js env = js env'"
  shows "unsynced env w issues = unsynced env' w' issues"
  unfolding unsynced_def
  using has_page_cong [OF assms(1)] hasRequired_cong [OF assms(2,3)] by simp

lemma loop_body_keeps_pages:
  assumes "loop_body env issue w = Some w'" and "has_page j w"
  shows "has_page j w' \<and> count_list (page_ids w') (Some j) = count_list (page_ids w) (Some j)"
proof -
  from loop_body_outcome [OF assms(1)]
  consider "page_ids w' = page_ids w"
    | "\<not> has_page (issue_identifier issue) w"
      "page_ids w' = page_ids w @ [Some (issue_identifier issue)]"
    by auto
  then show ?thesis
  proof cases
    case 1
    with assms(2) show ?thesis by (simp add: has_page_def)
  next
    case 2
    with assms(2) have "issue_identifier issue \<noteq> j" by auto
    with 2 assms(2) show ?thesis by (simp add: has_page_def)
  qed
qed

lemma for_each_keeps_pages:
  "for_each env issues w = Some w' \<Longrightarrow> has_page j w \<Longrightarrow>
   has_page j w' \<and> count_list (page_ids w') (Some j) = count_list (page_ids w) (Some j)"
proof (induction issues arbitrary: w)
  case Nil
  then show ?case by simp
next
  case (Cons issue rest)
  from Cons.prems(1) obtain w1 where b: "loop_body env issue w = Some w1"
    and r: "for_each env rest w1 = Some w'"
    by (auto split: option.splits)
  from loop_body_keeps_pages [OF b Cons.prems(2)] Cons.IH [OF r] show ?case by simp
qed

lemma first_run_unsynced:
  "for_each env issues w = Some w' \<Longrightarrow>
   length (unsynced env w' issues) + errors (summary w) \<le> errors (summary w')"
proof (induction issues arbitrary: w)
  case Nil
  then show ?case by (simp add: unsynced_def)
next
  case (Cons issue rest)
  from Cons.prems(1) obtain w1 where b: "loop_body env issue w = Some w1"
    and r: "for_each env rest w1 = Some w'"
    by (auto split: option.splits)
  note ih = Cons.IH [OF r]
  note out = loop_body_outcome [OF b]
  show ?case
  proof (cases "hasRequired env (issue_labels issue) \<and> \<not> has_page (issue_identifier issue) w'")
    case True
    with for_each_keeps_pages [OF r] have "\<not> has_page (issue_identifier issue) w1" by blast
    with True out have "errors (summary w1) = errors (summary w) + 1" by blast
    with ih True show ?thesis by (simp add: unsynced_def)
  next
    case False
    from out have "errors (summary w) \<le> errors (summary w1)" by blast
    with ih False show ?thesis by (auto simp: unsynced_def)
  qed
qed

lemma second_run_created:
  "for_each env issues w = Some w' \<Longrightarrow>
   created (summary w') \<le> created (summary w) + card (issue_identifier ` set (unsynced env w issues))"
proof (induction issues arbitrary: w)
  case Nil
  then show ?case by simp
next
  case (Cons issue rest)
  let ?id = "issue_identifier issue"
  let ?U = "issue_identifier ` set (unsynced env w (issue # rest))"
  from Cons.prems(1) obtain w1 where b: "loop_body env issue w = Some w1"
    and r: "for_each env rest w1 = Some w'"
    by (auto split: option.splits)
  note ih = Cons.IH [OF r]
  have fin: "finite ?U" by simp
  from loop_body_outcome [OF b]
  consider (same) "page_ids w1 = page_ids w" "created (summary w1) = created (summary w)"
    | (added) "hasRequired env (issue_labels issue)" "\<not> has_page ?id w"
        "page_ids w1 = page_ids w @ [Some ?id]" "created (summary w1) \<le> created (summary w) + 1"
    by auto
  then show ?case
  proof cases
    case same
    from unsynced_cong [OF same(1) refl refl]
    have "unsynced env w1 rest = unsynced env w rest" .
    then have "issue_identifier ` set (unsynced env w1 rest) \<subseteq> ?U"
      by (auto simp: unsynced_def)
    from card_mono [OF fin this] ih same(2) show ?thesis by simp
  next
    case added
    from added(3) have hp: "has_page j w1 = (has_page j w \<or> j = ?id)" for j
      by (auto simp: has_page_def)
    have sub: "issue_identifier ` set (unsynced env w1 rest) \<subseteq> ?U - {?id}"
      by (auto simp: unsynced_def hp)
    from added(1,2) have mem: "?id \<in> ?U" by (simp add: unsynced_def)
    from fin have "finite (?U - {?id})" by simp
    from card_mono [OF this sub]
    have "card (issue_identifier ` set (unsynced env w1 rest)) \<le> card (?U - {?id})" .
    also from mem fin have "card (?U - {?id}) = card ?U - 1" by simp
    finally have "card (issue_identifier ` set (unsynced env w1 rest)) + 1 \<le> card ?U"
      using mem fin by (metis Suc_eq_plus1 Suc_pred' card_gt_0_iff empty_iff not_less_eq_eq)
    with ih added(4) show ?thesis by simp
  qed
qed

lemma synced_run_creates_nothing:
  "for_each env issues w = Some w' \<Longrightarrow> unsynced env w issues = [] \<Longrightarrow>
   page_ids w' = page_ids w \<and> created (summary w') = created (summary w)"
proof (induction issues arbitrary: w)
  case Nil
  then show ?case by simp
next
  case (Cons issue rest)
  from Cons.prems(1) obtain w1 where b: "loop_body env issue w = Some w1"
    and r: "for_each env rest w1 = Some w'"
    by (auto split: option.splits)
  from Cons.prems(2) have head: "\<not> (hasRequired env (issue_labels issue)
        \<and> \<not> has_page (issue_identifier issue) w)"
    and rest: "unsynced env w rest = []"
    by (auto simp: unsynced_def split: if_splits)
  from loop_body_outcome [OF b] head
  have same: "page_ids w1 = page_ids w" "created (summary w1) = created (summary w)" by auto
  from unsynced_cong [OF same(1) refl refl, of env rest] rest have "unsynced env w1 rest = []" by simp
  from Cons.IH [OF r this] same show ?case by simp
qed


lemma two_runs:
  assumes r1: "main env feed w = Some out" and r2: "main env2 feed w2 = Some out2"
    and lab: "REQUIRED_LABEL env2 = REQUIRED_LABEL env" and rt: "js env2 = js env"
    and pages: "page_ids w2 = page_ids (final_world out)"
  shows "created (summary (final_world out2)) + errors (summary w)
           \<le> created (summary w2) + errors (summary (final_world out))
     \<and> (errors (summary (final_world out)) = errors (summary w) \<longrightarrow>
           created (summary (final_world out2)) = created (summary w2)
           \<and> page_ids (final_world out2) = page_ids w2)"
proof -
  let ?L = "feed_issues feed"
  note f1 = main_for_each [OF r1]
  note f2 = main_for_each [OF r2]
  from unsynced_cong [OF pages lab rt] have u: "unsynced env2 w2 ?L = unsynced env (final_world out) ?L" .
  have "card (issue_identifier ` set (unsynced env2 w2 ?L)) \<le> length (unsynced env2 w2 ?L)"
    by (metis card_image_le card_length le_trans List.finite_set)
  with second_run_created [OF f2] first_run_unsynced [OF f1] u
  have a: "created (summary (final_world out2)) + errors (summary w)
           \<le> created (summary w2) + errors (summary (final_world out))" by simp
  have b: "created (summary (final_world out2)) = created (summary w2)
           \<and> page_ids (final_world out2) = page_ids w2"
    if "errors (summary (final_world out)) = errors (summary w)"
  proof -
    from first_run_unsynced [OF f1] that u have "unsynced env2 w2 ?L = []" by simp
    from synced_run_creates_nothing [OF f2 this] show ?thesis by simp
  qed
  from a b show ?thesis by blast
qed

(*C1*)

subsection \<open>The schema registry\<close>

lemma sent_append: "requests w' = requests w @ rs \<Longrightarrow> sent w w' = rs"
  by (simp add: sent_def)

lemma fetch_GetDatabase:
  "fetch env GetDatabase w = (resp, w1) \<Longrightarrow>
   w1 = w\<lparr>trace := trace w @ [Sent GetDatabase]\<rparr>
   \<and> (ok resp \<longrightarrow> json resp = BDatabase (db_properties w))"
  by (auto simp: fetch_def serve_def Let_def ok_def split: if_splits prod.splits)

lemma getDatabase_effect:
  assumes "getDatabase env w = (r, w1)"
  shows "(trace w1 = trace w \<or> trace w1 = trace w @ [Sent GetDatabase])
     \<and> db_properties w1 = db_properties w \<and> db_pages w1 = db_pages w
     \<and> summary w1 = summary w
     \<and> (case r of
           Inr db \<Rightarrow> dbSchemaCache w1 = Some db
                      \<and> (dbSchemaCache w = None \<longrightarrow> db = db_properties w)
         | Inl e \<Rightarrow> dbSchemaCache w1 = None)"
proof (cases "dbSchemaCache w")
  case (Some db)
  with assms show ?thesis by (auto simp: getDatabase_def)
next
  case None
  obtain resp w2 where f: "fetch env GetDatabase w = (resp, w2)"
    by (cases "fetch env GetDatabase w")
  from fetch_GetDatabase [OF f] None f assms show ?thesis
    by (auto simp: getDatabase_def Let_def db_of_body_def split: if_splits)
qed

lemma requests_trace_eq: "trace w1 = t \<Longrightarrow> requests w1 = requests_of t"
  by (simp add: requests_def)

lemma getDatabase_requests:
  assumes "getDatabase env w = (r, w1)"
  shows "requests w1 = requests w \<or> requests w1 = requests w @ [GetDatabase]"
  using getDatabase_effect [OF assms] by (auto dest!: requests_trace_eq)

lemma fetch_PatchDatabase:
  "fetch env (PatchDatabase pname tkey opts) w = (resp, w2) \<Longrightarrow>
   status resp = fst (respond env (length (requests w)))
   \<and> err_text resp = snd (respond env (length (requests w)))
   \<and> db_pages w2 = db_pages w \<and> summary w2 = summary w
   \<and> w2 = (if ok resp
            then w\<lparr>db_properties := AList.update pname \<lparr>ptype = tkey, poptions = opts\<rparr> (db_properties w),
                   trace := trace w @ [Sent (PatchDatabase pname tkey opts)]\<rparr>
            else w\<lparr>trace := trace w @ [Sent (PatchDatabase pname tkey opts)]\<rparr>)"
  by (auto simp: fetch_def serve_def Let_def ok_def split: if_splits prod.splits)

lemma ensureSelectOption_absent:
  "\<not> truthy (normalizeOptionName (js env) raw) \<Longrightarrow> ensureSelectOption env pname raw w = (Inr (), w)"
  by (auto simp: ensureSelectOption_def truthy_def split: option.splits)

lemma ensureSelectOption_schema_error:
  assumes "normalizeOptionName (js env) raw = Some opt" and "opt \<noteq> []"
    and "getDatabase env w = (Inl e, w1)"
  shows "ensureSelectOption env pname raw w = (Inl e, w1)"
  using assms by (simp add: ensureSelectOption_def)

lemma ensureSelectOption_noop:
  assumes "normalizeOptionName (js env) raw = Some opt" and "opt \<noteq> []"
    and "getDatabase env w = (Inr db, w1)"
    and "nothing_to_add (js env) db pname opt"
  shows "ensureSelectOption env pname raw w = (Inr (), w1)"
  using assms
  by (auto simp: ensureSelectOption_def nothing_to_add_def Let_def split: option.splits)

lemma ensureSelectOption_rejected:
  assumes n: "normalizeOptionName (js env) raw = Some opt" and ne: "opt \<noteq> []"
    and gd: "getDatabase env w = (Inr db, w1)"
    and new: "\<not> nothing_to_add (js env) db pname opt" and pd: "map_of db pname = Some pd"
    and rej: "\<not> (200 \<le> fst (respond env (length (requests w1)))
                \<and> fst (respond env (length (requests w1))) \<le> 299)"
  shows "ensureSelectOption env pname raw w =
     (Inl (schema_error opt pname (respond env (length (requests w1)))),
      w1\<lparr>trace := trace w1 @ [Sent (PatchDatabase pname (ptype pd) (poptions pd @ [opt]))]\<rparr>)"
proof -
  let ?req = "PatchDatabase pname (ptype pd) (poptions pd @ [opt])"
  from new pd have cat: "\<not> (ptype pd \<noteq> ''select'' \<and> ptype pd \<noteq> ''multi_select'')"
    and fresh: "\<not> list_ex (\<lambda>n. toLowerCase (js env) n = toLowerCase (js env) opt) (poptions pd)"
    by (simp_all add: nothing_to_add_def)
  obtain resp w2 where f: "fetch env ?req w1 = (resp, w2)" by (cases "fetch env ?req w1")
  from fetch_PatchDatabase [OF f] rej
  have "\<not> ok resp" "status resp = fst (respond env (length (requests w1)))"
    "err_text resp = snd (respond env (length (requests w1)))"
    "w2 = w1\<lparr>trace := trace w1 @ [Sent ?req]\<rparr>"
    by (auto simp: ok_def)
  with n ne gd pd cat fresh f show ?thesis
    by (auto simp: ensureSelectOption_def Let_def schema_error_def)
qed

lemma ensureSelectOption_accepted:
  assumes n: "normalizeOptionName (js env) raw = Some opt" and ne: "opt \<noteq> []"
    and gd: "getDatabase env w = (Inr db, w1)"
    and new: "\<not> nothing_to_add (js env) db pname opt" and pd: "map_of db pname = Some pd"
    and acc: "200 \<le> fst (respond env (length (requests w1)))"
      "fst (respond env (length (requests w1))) \<le> 299"
    and run: "ensureSelectOption env pname raw w = (r, w')"
  shows "filter is_mutation (sent w w') = [PatchDatabase pname (ptype pd) (poptions pd @ [opt])]
     \<and> db_properties w'
          = AList.update pname \<lparr>ptype = ptype pd, poptions = poptions pd @ [opt]\<rparr> (db_properties w)
     \<and> (r = Inr () \<and> dbSchemaCache w' = Some (db_properties w')
         \<or> r \<noteq> Inr () \<and> dbSchemaCache w' = None)"
proof -
  let ?req = "PatchDatabase pname (ptype pd) (poptions pd @ [opt])"
  from new pd have cat: "\<not> (ptype pd \<noteq> ''select'' \<and> ptype pd \<noteq> ''multi_select'')"
    and fresh: "\<not> list_ex (\<lambda>n. toLowerCase (js env) n = toLowerCase (js env) opt) (poptions pd)"
    by (simp_all add: nothing_to_add_def)
  from getDatabase_effect [OF gd] getDatabase_requests [OF gd]
  have g1: "requests w1 = requests w \<or> requests w1 = requests w @ [GetDatabase]"
    and p1: "db_properties w1 = db_properties w" by simp_all
  obtain resp w2 where f: "fetch env ?req w1 = (resp, w2)" by (cases "fetch env ?req w1")
  from fetch_PatchDatabase [OF f] acc
  have okr: "ok resp"
    and w2: "w2 = w1\<lparr>db_properties := AList.update pname
                  \<lparr>ptype = ptype pd, poptions = poptions pd @ [opt]\<rparr> (db_properties w1),
                trace := trace w1 @ [Sent ?req]\<rparr>"
    by (auto simp: ok_def)
  then have r2: "requests w2 = requests w1 @ [?req]"
    and d2: "db_properties w2 = AList.update pname
                  \<lparr>ptype = ptype pd, poptions = poptions pd @ [opt]\<rparr> (db_properties w1)"
    by simp_all
  let ?w2 = "w2\<lparr>dbSchemaCache := None\<rparr>"
  obtain r3 w3 where g: "getDatabase env ?w2 = (r3, w3)" by (cases "getDatabase env ?w2")
  from getDatabase_effect [OF g] getDatabase_requests [OF g]
  have g3: "requests w3 = requests w2 \<or> requests w3 = requests w2 @ [GetDatabase]"
    and p3: "db_properties w3 = db_properties w2"
    and c3: "case r3 of Inr d \<Rightarrow> dbSchemaCache w3 = Some d \<and> d = db_properties w2
               | Inl e \<Rightarrow> dbSchemaCache w3 = None"
    by (simp_all split: sum.splits)
  from run n ne gd pd cat fresh f okr g
  have res: "w' = w3" "r = (case r3 of Inl e \<Rightarrow> Inl e | Inr d \<Rightarrow> Inr ())"
    by (auto simp: ensureSelectOption_def Let_def split: sum.splits)
  from g1 r2 g3 res(1) have "filter is_mutation (sent w w') = [?req]"
    by (auto simp: sent_def is_mutation_def)
  with res p1 p3 c3 d2 show ?thesis by (auto split: sum.splits)
qed

lemma nothing_to_add_cong:
  "toLowerCase rt opt2 = toLowerCase rt opt \<Longrightarrow>
   nothing_to_add rt db pname opt2 = nothing_to_add rt db pname opt"
  by (simp add: nothing_to_add_def split: option.splits)

lemma getDatabase_cached: "dbSchemaCache w = Some db \<Longrightarrow> getDatabase env w = (Inr db, w)"
  by (simp add: getDatabase_def)

lemma ensureSelectOption_repeat:
  assumes run: "ensureSelectOption env pname raw w = (Inr (), w')"
    and n: "normalizeOptionName (js env) raw = Some opt" and ne: "opt \<noteq> []"
    and n2: "normalizeOptionName (js env) raw2 = Some opt2" and ne2: "opt2 \<noteq> []"
    and lc: "toLowerCase (js env) opt2 = toLowerCase (js env) opt"
  shows "ensureSelectOption env pname raw2 w' = (Inr (), w')"
proof -
  obtain r1 w1 where gd: "getDatabase env w = (r1, w1)" by (cases "getDatabase env w")
  show ?thesis
  proof (cases r1)
    case (Inl e)
    with ensureSelectOption_schema_error [OF n ne, of w e w1 pname] gd run show ?thesis by simp
  next
    case (Inr db)
    with gd have gd: "getDatabase env w = (Inr db, w1)" by simp
    show ?thesis
    proof (cases "nothing_to_add (js env) db pname opt")
      case True
      from ensureSelectOption_noop [OF n ne gd True] run have w': "w' = w1" by simp
      from getDatabase_effect [OF gd] have "dbSchemaCache w1 = Some db" by simp
      with w' have g2: "getDatabase env w' = (Inr db, w')" by (simp add: getDatabase_cached)
      from True nothing_to_add_cong [OF lc, of db pname]
      have "nothing_to_add (js env) db pname opt2" by simp
      from ensureSelectOption_noop [OF n2 ne2 g2 this] show ?thesis .
    next
      case False
      then obtain pd where pd: "map_of db pname = Some pd"
        by (auto simp: nothing_to_add_def split: option.splits)
      from False pd have cat: "ptype pd = ''select'' \<or> ptype pd = ''multi_select''"
        by (auto simp: nothing_to_add_def)
      have acc: "200 \<le> fst (respond env (length (requests w1)))
                \<and> fst (respond env (length (requests w1))) \<le> 299"
      proof (rule ccontr)
        assume "\<not> ?thesis"
        from ensureSelectOption_rejected [OF n ne gd False pd this] run show False by simp
      qed
      then have acc1: "200 \<le> fst (respond env (length (requests w1)))"
        and acc2: "fst (respond env (length (requests w1))) \<le> 299" by simp_all
      from ensureSelectOption_accepted [OF n ne gd False pd acc1 acc2 run]
      have d: "db_properties w'
              = AList.update pname \<lparr>ptype = ptype pd, poptions = poptions pd @ [opt]\<rparr> (db_properties w)"
        and c: "dbSchemaCache w' = Some (db_properties w')" by auto
      from c have g2: "getDatabase env w' = (Inr (db_properties w'), w')"
        by (rule getDatabase_cached)
      from d have "map_of (db_properties w') pname
          = Some \<lparr>ptype = ptype pd, poptions = poptions pd @ [opt]\<rparr>"
        by (simp add: update_conv')
      with cat lc have "nothing_to_add (js env) (db_properties w') pname opt2"
        by (auto simp: nothing_to_add_def)
      from ensureSelectOption_noop [OF n2 ne2 g2 this] show ?thesis .
    qed
  qed
qed

lemma ensureSelectOption_frame_pages:
  "ensureSelectOption env pname raw w = (r, w') \<Longrightarrow> db_pages w' = db_pages w \<and> summary w' = summary w"
proof -
  assume run: "ensureSelectOption env pname raw w = (r, w')"
  have fr: "frame (\<lambda>w w'. db_pages w' = db_pages w \<and> summary w' = summary w)"
    by (simp add: frame_def)
  have "db_pages (snd (ensureSelectOption env pname raw w)) = db_pages w
      \<and> summary (snd (ensureSelectOption env pname raw w)) = summary w"
    by (rule ensureSelectOption_frame [OF fr])
       (simp_all add: allows_def fetch_pages_GetDatabase fetch_pages_PatchDatabase fetch_summary)
  with run show ?thesis by simp
qed


lemma getDatabase_uncached:
  assumes "dbSchemaCache w = None" and "getDatabase env w = (r, w1)"
  shows "requests w1 = requests w @ [GetDatabase]"
proof -
  obtain resp w2 where f: "fetch env GetDatabase w = (resp, w2)"
    by (cases "fetch env GetDatabase w")
  from fetch_GetDatabase [OF f] have "requests w2 = requests w @ [GetDatabase]" by simp
  with assms f show ?thesis by (auto simp: getDatabase_def Let_def split: if_splits)
qed

lemma ensureSelectOption_refresh:
  assumes n: "normalizeOptionName (js env) raw = Some opt" and ne: "opt \<noteq> []"
    and gd: "getDatabase env w = (Inr db, w1)"
    and new: "\<not> nothing_to_add (js env) db pname opt" and pd: "map_of db pname = Some pd"
    and acc: "200 \<le> fst (respond env (length (requests w1)))"
      "fst (respond env (length (requests w1))) \<le> 299"
    and run: "ensureSelectOption env pname raw w = (r, w')"
  shows "sent w1 w' = [PatchDatabase pname (ptype pd) (poptions pd @ [opt]), GetDatabase]"
proof -
  let ?req = "PatchDatabase pname (ptype pd) (poptions pd @ [opt])"
  from new pd have cat: "\<not> (ptype pd \<noteq> ''select'' \<and> ptype pd \<noteq> ''multi_select'')"
    and fresh: "\<not> list_ex (\<lambda>n. toLowerCase (js env) n = toLowerCase (js env) opt) (poptions pd)"
    by (simp_all add: nothing_to_add_def)
  obtain resp w2 where f: "fetch env ?req w1 = (resp, w2)" by (cases "fetch env ?req w1")
  from fetch_PatchDatabase [OF f] acc have okr: "ok resp" by (auto simp: ok_def)
  from f fetch_requests [of env ?req w1] have r2: "requests w2 = requests w1 @ [?req]" by simp
  let ?w2 = "w2\<lparr>dbSchemaCache := None\<rparr>"
  obtain r3 w3 where g: "getDatabase env ?w2 = (r3, w3)" by (cases "getDatabase env ?w2")
  from getDatabase_uncached [OF _ g] have g3: "requests w3 = requests w2 @ [GetDatabase]" by simp
  from run n ne gd pd cat fresh f okr g have "w' = w3"
    by (auto simp: ensureSelectOption_def Let_def split: sum.splits)
  with r2 g3 show ?thesis by (simp add: sent_def)
qed

text \<open>
  C3 (as amended): \<open>ensureSelectOption\<close> does nothing at all when the option name
  normalizes to absent. Otherwise it reads the schema (from the cache, or from the
  destination, which fills the cache or throws), and with the schema it read it sends
  no mutation and changes nothing more when the property is missing, is not a select
  or multi\_select, or already has an option with the \<open>toLowerCase\<close> of the name. In
  the remaining case it sends exactly one mutation, for the options it read with the
  new one appended at the end. When the destination accepts the mutation, the cache is
  dropped and read again at once, so that afterwards the cache is the destination's
  schema with the new option (or is empty, when that read failed and the call throws),
  and a further call for the same name, in any letter case, sends nothing. When the
  destination does not accept the mutation, the call throws with the status and the
  text of the answer, nothing else is sent and the cache is kept. Pages and summary
  are never touched.
\<close>

theorem ensureSelectOption_spec:
  assumes run: "ensureSelectOption env pname raw w = (r, w')"
  shows "(\<not> truthy (normalizeOptionName (js env) raw) \<longrightarrow> r = Inr () \<and> w' = w)
     \<and> (\<forall>opt e w1. normalizeOptionName (js env) raw = Some opt \<and> opt \<noteq> []
            \<and> getDatabase env w = (Inl e, w1) \<longrightarrow> r = Inl e \<and> w' = w1)
     \<and> (\<forall>opt db w1. normalizeOptionName (js env) raw = Some opt \<and> opt \<noteq> []
            \<and> getDatabase env w = (Inr db, w1) \<and> nothing_to_add (js env) db pname opt \<longrightarrow>
          r = Inr () \<and> w' = w1 \<and> filter is_mutation (sent w w') = []
          \<and> db_properties w' = db_properties w)
     \<and> (\<forall>opt db w1 pd. normalizeOptionName (js env) raw = Some opt \<and> opt \<noteq> []
            \<and> getDatabase env w = (Inr db, w1)
            \<and> \<not> nothing_to_add (js env) db pname opt \<and> map_of db pname = Some pd \<longrightarrow>
          filter is_mutation (sent w w') = [PatchDatabase pname (ptype pd) (poptions pd @ [opt])]
          \<and> (if 200 \<le> fst (respond env (length (requests w1)))
                  \<and> fst (respond env (length (requests w1))) \<le> 299
              then sent w1 w' = [PatchDatabase pname (ptype pd) (poptions pd @ [opt]), GetDatabase]
                 \<and> db_properties w'
                     = AList.update pname \<lparr>ptype = ptype pd, poptions = poptions pd @ [opt]\<rparr>
                         (db_properties w)
                 \<and> (r = Inr () \<and> dbSchemaCache w' = Some (db_properties w')
                     \<or> r \<noteq> Inr () \<and> dbSchemaCache w' = None)
              else r = Inl (schema_error opt pname (respond env (length (requests w1))))
                 \<and> w' = w1\<lparr>trace := trace w1
                            @ [Sent (PatchDatabase pname (ptype pd) (poptions pd @ [opt]))]\<rparr>))
     \<and> db_pages w' = db_pages w \<and> summary w' = summary w
     \<and> (\<forall>opt raw2 opt2. r = Inr () \<and> normalizeOptionName (js env) raw = Some opt \<and> opt \<noteq> []
            \<and> normalizeOptionName (js env) raw2 = Some opt2 \<and> opt2 \<noteq> []
            \<and> toLowerCase (js env) opt2 = toLowerCase (js env) opt \<longrightarrow>
          ensureSelectOption env pname raw2 w' = (Inr (), w'))"
proof -
  have a: "\<not> truthy (normalizeOptionName (js env) raw) \<longrightarrow> r = Inr () \<and> w' = w"
    using run by (auto simp: ensureSelectOption_absent)
  have b: "\<forall>opt e w1. normalizeOptionName (js env) raw = Some opt \<and> opt \<noteq> []
            \<and> getDatabase env w = (Inl e, w1) \<longrightarrow> r = Inl e \<and> w' = w1"
    using run by (auto simp: ensureSelectOption_schema_error)
  have c: "\<forall>opt db w1. normalizeOptionName (js env) raw = Some opt \<and> opt \<noteq> []
            \<and> getDatabase env w = (Inr db, w1) \<and> nothing_to_add (js env) db pname opt \<longrightarrow>
          r = Inr () \<and> w' = w1 \<and> filter is_mutation (sent w w') = []
          \<and> db_properties w' = db_properties w"
  proof (intro allI impI, elim conjE)
    fix opt db w1
    assume that: "normalizeOptionName (js env) raw = Some opt" "opt \<noteq> []"
      "getDatabase env w = (Inr db, w1)" "nothing_to_add (js env) db pname opt"
    from ensureSelectOption_noop [OF that] run have rw: "r = Inr ()" "w' = w1" by simp_all
    from getDatabase_effect [OF that(3)] getDatabase_requests [OF that(3)] rw
    have "requests w' = requests w \<or> requests w' = requests w @ [GetDatabase]"
      and "db_properties w' = db_properties w" by simp_all
    then have "filter is_mutation (sent w w') = []" "db_properties w' = db_properties w"
      by (auto simp: sent_def is_mutation_def)
    with rw show "r = Inr () \<and> w' = w1 \<and> filter is_mutation (sent w w') = []
          \<and> db_properties w' = db_properties w" by simp
  qed
  have d: "\<forall>opt db w1 pd. normalizeOptionName (js env) raw = Some opt \<and> opt \<noteq> []
            \<and> getDatabase env w = (Inr db, w1)
            \<and> \<not> nothing_to_add (js env) db pname opt \<and> map_of db pname = Some pd \<longrightarrow>
          filter is_mutation (sent w w') = [PatchDatabase pname (ptype pd) (poptions pd @ [opt])]
          \<and> (if 200 \<le> fst (respond env (length (requests w1)))
                  \<and> fst (respond env (length (requests w1))) \<le> 299
              then sent w1 w' = [PatchDatabase pname (ptype pd) (poptions pd @ [opt]), GetDatabase]
                 \<and> db_properties w'
                     = AList.update pname \<lparr>ptype = ptype pd, poptions = poptions pd @ [opt]\<rparr>
                         (db_properties w)
                 \<and> (r = Inr () \<and> dbSchemaCache w' = Some (db_properties w')
                     \<or> r \<noteq> Inr () \<and> dbSchemaCache w' = None)
              else r = Inl (schema_error opt pname (respond env (length (requests w1))))
                 \<and> w' = w1\<lparr>trace := trace w1
                            @ [Sent (PatchDatabase pname (ptype pd) (poptions pd @ [opt]))]\<rparr>)"
  proof (intro allI impI, elim conjE)
    fix opt db w1 pd
    assume that: "normalizeOptionName (js env) raw = Some opt" "opt \<noteq> []"
      "getDatabase env w = (Inr db, w1)"
      "\<not> nothing_to_add (js env) db pname opt" "map_of db pname = Some pd"
    let ?req = "PatchDatabase pname (ptype pd) (poptions pd @ [opt])"
    let ?ok = "200 \<le> fst (respond env (length (requests w1)))
                  \<and> fst (respond env (length (requests w1))) \<le> 299"
    show "filter is_mutation (sent w w') = [?req]
          \<and> (if ?ok
              then sent w1 w' = [?req, GetDatabase]
                 \<and> db_properties w'
                     = AList.update pname \<lparr>ptype = ptype pd, poptions = poptions pd @ [opt]\<rparr>
                         (db_properties w)
                 \<and> (r = Inr () \<and> dbSchemaCache w' = Some (db_properties w')
                     \<or> r \<noteq> Inr () \<and> dbSchemaCache w' = None)
              else r = Inl (schema_error opt pname (respond env (length (requests w1))))
                 \<and> w' = w1\<lparr>trace := trace w1 @ [Sent ?req]\<rparr>)"
    proof (cases ?ok)
      case True
      then have acc: "200 \<le> fst (respond env (length (requests w1)))"
        "fst (respond env (length (requests w1))) \<le> 299" by simp_all
      from ensureSelectOption_accepted [OF that acc run]
        ensureSelectOption_refresh [OF that acc run]
      show ?thesis
        by (subst if_P [OF True]) blast
    next
      case False
      from ensureSelectOption_rejected [OF that False] run
      have rw: "r = Inl (schema_error opt pname (respond env (length (requests w1))))"
        "w' = w1\<lparr>trace := trace w1 @ [Sent ?req]\<rparr>" by simp_all
      from getDatabase_requests [OF that(3)] rw(2)
      have mut: "filter is_mutation (sent w w') = [?req]"
        by (auto simp: sent_def is_mutation_def)
      show ?thesis
        by (subst if_not_P [OF False]) (intro conjI mut rw)
    qed
  qed
  note e = ensureSelectOption_frame_pages [OF run]
  have f: "\<forall>opt raw2 opt2. r = Inr () \<and> normalizeOptionName (js env) raw = Some opt \<and> opt \<noteq> []
            \<and> normalizeOptionName (js env) raw2 = Some opt2 \<and> opt2 \<noteq> []
            \<and> toLowerCase (js env) opt2 = toLowerCase (js env) opt \<longrightarrow>
          ensureSelectOption env pname raw2 w' = (Inr (), w')"
  proof (intro allI impI, elim conjE)
    fix opt raw2 opt2
    assume that: "r = Inr ()" "normalizeOptionName (js env) raw = Some opt" "opt \<noteq> []"
      "normalizeOptionName (js env) raw2 = Some opt2" "opt2 \<noteq> []"
      "toLowerCase (js env) opt2 = toLowerCase (js env) opt"
    from run that(1) have "ensureSelectOption env pname raw w = (Inr (), w')" by simp
    from ensureSelectOption_repeat [OF this that(2,3,4,5,6)]
    show "ensureSelectOption env pname raw2 w' = (Inr (), w')" .
  qed
  from e have e1: "db_pages w' = db_pages w" and e2: "summary w' = summary w" by simp_all
  show ?thesis
    by (intro conjI) (rule a, rule b, rule c, rule d, rule e1, rule e2, rule f)
qed

lemma example_schema_read:
  "getDatabase example_env (start example_db [])
     = (Inr example_db,
        (start example_db [])\<lparr>trace := [Sent GetDatabase], dbSchemaCache := Some example_db\<rparr>)"
  by code_simp

lemma example_option_facts:
  "normalizeOptionName (js example_env) (JStr ''HIGH'') = Some ''HIGH''
   \<and> nothing_to_add (js example_env) example_db ''Priority'' ''HIGH''
   \<and> normalizeOptionName (js example_env) (JStr '' Bug '') = Some ''Bug''
   \<and> \<not> nothing_to_add (js example_env) example_db ''Type'' ''Bug''
   \<and> map_of example_db ''Type'' = Some \<lparr>ptype = ''multi_select'', poptions = []\<rparr>
   \<and> normalizeOptionName (js example_env) (JStr ''bug'') = Some ''bug''
   \<and> toLowerCase (js example_env) ''bug'' = toLowerCase (js example_env) ''Bug''
   \<and> fst (ensureSelectOption example_env ''Type'' (JStr '' Bug '') (start example_db [])) = Inr ()
   \<and> \<not> truthy (normalizeOptionName (js example_env) JNull)"
  by code_simp

theorem ensureSelectOption_spec_witness:
  "ensureSelectOption example_env ''Type'' JNull (start example_db []) = (Inr (), start example_db [])
   \<and> filter is_mutation
        (sent (start example_db [])
           (snd (ensureSelectOption example_env ''Priority'' (JStr ''HIGH'') (start example_db [])))) = []
   \<and> filter is_mutation
        (sent (start example_db [])
           (snd (ensureSelectOption example_env ''Type'' (JStr '' Bug '') (start example_db []))))
       = [PatchDatabase ''Type'' ''multi_select'' [''Bug'']]
   \<and> ensureSelectOption example_env ''Type'' (JStr ''bug'')
        (snd (ensureSelectOption example_env ''Type'' (JStr '' Bug '') (start example_db [])))
       = (Inr (), snd (ensureSelectOption example_env ''Type'' (JStr '' Bug '') (start example_db [])))"
proof -
  let ?w = "start example_db []"
  let ?w1 = "(start example_db [])\<lparr>trace := [Sent GetDatabase], dbSchemaCache := Some example_db\<rparr>"
  have run: "ensureSelectOption example_env pn raw ?w
      = (fst (ensureSelectOption example_env pn raw ?w), snd (ensureSelectOption example_env pn raw ?w))"
    for pn raw by simp
  note f = example_option_facts
  from ensureSelectOption_spec [OF run [of "''Type''" JNull]]
  have "\<not> truthy (normalizeOptionName (js example_env) JNull) \<longrightarrow>
      fst (ensureSelectOption example_env ''Type'' JNull ?w) = Inr ()
      \<and> snd (ensureSelectOption example_env ''Type'' JNull ?w) = ?w" by blast
  with f have 1: "ensureSelectOption example_env ''Type'' JNull ?w = (Inr (), ?w)"
    by (simp add: prod_eq_iff)
  from ensureSelectOption_spec [OF run [of "''Priority''" "JStr ''HIGH''"]]
  have "normalizeOptionName (js example_env) (JStr ''HIGH'') = Some ''HIGH'' \<and> ''HIGH'' \<noteq> []
        \<and> getDatabase example_env ?w = (Inr example_db, ?w1)
        \<and> nothing_to_add (js example_env) example_db ''Priority'' ''HIGH'' \<longrightarrow>
      filter is_mutation
        (sent ?w (snd (ensureSelectOption example_env ''Priority'' (JStr ''HIGH'') ?w))) = []"
    by blast
  with f example_schema_read
  have 2: "filter is_mutation
        (sent ?w (snd (ensureSelectOption example_env ''Priority'' (JStr ''HIGH'') ?w))) = []"
    by simp
  note t = ensureSelectOption_spec [OF run [of "''Type''" "JStr '' Bug ''"]]
  from t have "normalizeOptionName (js example_env) (JStr '' Bug '') = Some ''Bug'' \<and> ''Bug'' \<noteq> []
        \<and> getDatabase example_env ?w = (Inr example_db, ?w1)
        \<and> \<not> nothing_to_add (js example_env) example_db ''Type'' ''Bug''
        \<and> map_of example_db ''Type'' = Some \<lparr>ptype = ''multi_select'', poptions = []\<rparr> \<longrightarrow>
      filter is_mutation
        (sent ?w (snd (ensureSelectOption example_env ''Type'' (JStr '' Bug '') ?w)))
       = [PatchDatabase ''Type'' (ptype \<lparr>ptype = ''multi_select'', poptions = []\<rparr>)
            (poptions \<lparr>ptype = ''multi_select'', poptions = []\<rparr> @ [''Bug''])]"
    by blast
  with f example_schema_read
  have 3: "filter is_mutation
        (sent ?w (snd (ensureSelectOption example_env ''Type'' (JStr '' Bug '') ?w)))
       = [PatchDatabase ''Type'' ''multi_select'' [''Bug'']]"
    by simp
  from t have "fst (ensureSelectOption example_env ''Type'' (JStr '' Bug '') ?w) = Inr ()
        \<and> normalizeOptionName (js example_env) (JStr '' Bug '') = Some ''Bug'' \<and> ''Bug'' \<noteq> []
        \<and> normalizeOptionName (js example_env) (JStr ''bug'') = Some ''bug'' \<and> ''bug'' \<noteq> []
        \<and> toLowerCase (js example_env) ''bug'' = toLowerCase (js example_env) ''Bug'' \<longrightarrow>
      ensureSelectOption example_env ''Type'' (JStr ''bug'')
        (snd (ensureSelectOption example_env ''Type'' (JStr '' Bug '') ?w))
       = (Inr (), snd (ensureSelectOption example_env ''Type'' (JStr '' Bug '') ?w))"
    by blast
  with f
  have 4: "ensureSelectOption example_env ''Type'' (JStr ''bug'')
        (snd (ensureSelectOption example_env ''Type'' (JStr '' Bug '') ?w))
       = (Inr (), snd (ensureSelectOption example_env ''Type'' (JStr '' Bug '') ?w))"
    by simp
  from 1 2 3 4 show ?thesis by (intro conjI)
qed

text \<open>
  A value that is new to the schema can get more than one mutation: when the
  destination rejects the mutation of a first call, the call throws and the option is
  still missing, and a second call for the same value sends the same mutation again.
\<close>

theorem ensureSelectOption_spec_counterexample:
  "fst (ensureSelectOption reject_once_env ''Type'' (JStr ''Bug'') (start example_db []))
     = Inl (schema_error ''Bug'' ''Type'' (500, ''boom''))
   \<and> filter is_mutation
       (sent (start example_db [])
          (snd (ensureSelectOption reject_once_env ''Type'' (JStr ''Bug'')
             (snd (ensureSelectOption reject_once_env ''Type'' (JStr ''Bug'') (start example_db []))))))
     = [PatchDatabase ''Type'' ''multi_select'' [''Bug''],
        PatchDatabase ''Type'' ''multi_select'' [''Bug'']]"
  by code_simp

subsection \<open>The retry discipline\<close>

lemma retried_append:
  "retried env k a \<Longrightarrow> retried env (k + length (requests_of a)) b \<Longrightarrow> retried env k (a @ b)"
proof (induction env k a rule: retried.induct)
  case (1 env k)
  then show ?case by simp
next
  case (2 env k ms es)
  then show ?case by simp
next
  case (3 env k req es)
  from 3(2) have t: "is_page_write req \<and> fst (respond env k) = 429 \<longrightarrow> take 2 es = [Slept 500, Sent req]"
    and r: "retried env (Suc k) es" by (simp_all split: if_splits)
  from 3(3) have "retried env (Suc k + length (requests_of es)) b" by simp
  from 3(1) [OF r this] have rest: "retried env (Suc k) (es @ b)" .
  have "take 2 (es @ b) = [Slept 500, Sent req]" if "take 2 es = [Slept 500, Sent req]"
  proof -
    from that have "2 \<le> length es" by (metis length_take min.cobounded1 length_Cons list.size(3)
          One_nat_def Suc_1 min_def not_less_eq_eq)
    with that show ?thesis by simp
  qed
  with t rest show ?case by simp
qed

lemma retries_head: "take 1 (retries n req @ [Sent req]) = [Sent req]"
  by (cases n) simp_all

lemma retried_retries:
  "fst (respond env (k + n)) \<noteq> 429 \<Longrightarrow> retried env k (retries n req @ [Sent req])"
proof (induction n arbitrary: k)
  case 0
  then show ?case by simp
next
  case (Suc n)
  from Suc.prems have "fst (respond env (Suc k + n)) \<noteq> 429" by simp
  from Suc.IH [OF this] have ih: "retried env (Suc k) (retries n req @ [Sent req])" .
  from retries_head [of n req] obtain rest where "retries n req @ [Sent req] = Sent req # rest"
    by (cases "retries n req @ [Sent req]") simp_all
  with ih show ?case by simp
qed

lemma frame_retried: "frame (retry_rel env)"
  unfolding frame_def retry_rel_def
proof (intro conjI allI impI)
  fix w
  have "trace w = trace w @ [] \<and> retried env (length (requests w)) []" by simp
  then show "\<exists>es. trace w = trace w @ es \<and> retried env (length (requests w)) es" by blast
next
  fix a b c
  assume "\<exists>es. trace b = trace a @ es \<and> retried env (length (requests a)) es"
    and "\<exists>es. trace c = trace b @ es \<and> retried env (length (requests b)) es"
  then obtain e1 e2 where 1: "trace b = trace a @ e1" "retried env (length (requests a)) e1"
    and 2: "trace c = trace b @ e2" "retried env (length (requests b)) e2" by blast
  from requests_trace_eq [OF 1(1)] have "requests b = requests a @ requests_of e1"
    by simp
  with 2(2) have "retried env (length (requests a) + length (requests_of e1)) e2" by simp
  from retried_append [OF 1(2) this] 1(1) 2(1)
  have "trace c = trace a @ (e1 @ e2) \<and> retried env (length (requests a)) (e1 @ e2)" by simp
  then show "\<exists>es. trace c = trace a @ es \<and> retried env (length (requests a)) es" by blast
next
  fix w c
  have "trace (w\<lparr>dbSchemaCache := c\<rparr>) = trace w @ []
      \<and> retried env (length (requests w)) []" by simp
  then show "\<exists>es. trace (w\<lparr>dbSchemaCache := c\<rparr>) = trace w @ es
      \<and> retried env (length (requests w)) es" by blast
next
  fix w ms
  have "trace (sleep ms w) = trace w @ [Slept ms]
      \<and> retried env (length (requests w)) [Slept ms]" by simp
  then show "\<exists>es. trace (sleep ms w) = trace w @ es \<and> retried env (length (requests w)) es"
    by blast
qed

lemma allows_retried: "\<not> is_page_write req \<Longrightarrow> allows env (retry_rel env) req"
  unfolding allows_def retry_rel_def
proof
  fix w
  assume "\<not> is_page_write req"
  then have "trace (snd (fetch env req w)) = trace w @ [Sent req]
      \<and> retried env (length (requests w)) [Sent req]"
    by (simp add: fetch_trace)
  then show "\<exists>es. trace (snd (fetch env req w)) = trace w @ es
      \<and> retried env (length (requests w)) es" by blast
qed

lemma notionWrite_trace:
  assumes "notionWrite env req w = Some (r, w')"
  shows "\<exists>n. trace w' = trace w @ retries n req @ [Sent req]
     \<and> (\<forall>i<n. fst (respond env (length (requests w) + i)) = 429)
     \<and> fst (respond env (length (requests w) + n)) \<noteq> 429"
proof -
  from notionWrite_final [OF assms] obtain n resp
    where f: "fetch env req (w\<lparr>trace := trace w @ retries n req\<rparr>) = (resp, w')"
      and s: "status resp \<noteq> 429"
      and l: "\<forall>i<n. fst (respond env (length (requests w) + i)) = 429" by blast
  from f fetch_trace [of env req "w\<lparr>trace := trace w @ retries n req\<rparr>"]
  have t: "trace w' = trace w @ retries n req @ [Sent req]" by simp
  from f fetch_status [of env req "w\<lparr>trace := trace w @ retries n req\<rparr>"] s
  have "fst (respond env (length (requests w) + n)) \<noteq> 429" by simp
  with t l show ?thesis by blast
qed

lemma ensures_retried_notionWrite: "ensures (retry_rel env) (notionWrite env req)"
  unfolding ensures_def retry_rel_def
proof (intro allI impI)
  fix w r w'
  assume "notionWrite env req w = Some (r, w')"
  from notionWrite_trace [OF this] obtain n
    where "trace w' = trace w @ retries n req @ [Sent req]"
      and "fst (respond env (length (requests w) + n)) \<noteq> 429" by blast
  with retried_retries [of env "length (requests w)" n req]
  show "\<exists>es. trace w' = trace w @ es \<and> retried env (length (requests w)) es" by blast
qed


lemma ensures_write_page_via:
  assumes "frame R" and "\<And>req. is_page_write req \<Longrightarrow> ensures R (notionWrite env req)"
  shows "ensures R (write_page env props existing)"
  unfolding write_page_def using assms
  by (cases existing) (auto intro!: ensures_await ensures_return simp: is_page_write_def)

lemma ensures_finish_via:
  assumes fr: "frame R" and nw: "\<And>req. is_page_write req \<Longrightarrow> ensures R (notionWrite env req)"
  shows "ensures R (finish env issue pageId action)"
proof -
  have c: "ensures R (appendSyncComment env pageId issue c)" for c
    unfolding ensures_def
  proof (intro allI impI)
    fix w r w'
    assume a: "appendSyncComment env pageId issue c w = Some (r, w')"
    have "ensures R (await (notionWrite env (AppendChildren pageId bs)) (\<lambda>result. return_val ()))" for bs
      using fr by (intro ensures_await ensures_return nw) (simp_all add: is_page_write_def)
    with a show "R w w'"
      unfolding appendSyncComment_def Let_def by (blast dest: ensuresD)
  qed
  have l: "ensures R (notionWrite env (PatchPage pageId ps))" for ps
    by (rule nw) (simp add: is_page_write_def)
  show ?thesis
    unfolding finish_def
    by (intro ensures_await c ensures_nowISO l ensures_return fr)
qed

lemma ensures_upsert_via:
  assumes fr: "frame R" and al: "\<And>req. \<not> is_page_write req \<Longrightarrow> allows env R req"
    and nw: "\<And>req. is_page_write req \<Longrightarrow> ensures R (notionWrite env req)"
    and lab: "hasRequired env (issue_labels issue)"
  shows "ensures R (upsert env issue)"
proof -
  have g: "allows env R GetDatabase" and p: "\<And>pname tkey opts. allows env R (PatchDatabase pname tkey opts)"
    and q: "allows env R (QueryDatabase (issue_identifier issue))"
    by (rule al, simp add: is_page_write_def)+
  show ?thesis
    unfolding upsert_phases [OF lab]
    by (intro ensures_await ensures_prepare ensures_findPageByIssueId fr g p q)
       (auto intro!: ensures_await ensures_write_page_via ensures_finish_via fr nw)
qed

lemma upsert_retried:
  assumes "upsert env issue w = Some (r, w')"
  shows "retry_rel env w w'"
proof (cases "hasRequired env (issue_labels issue)")
  case False
  with assms have "trace w' = trace w" by (auto simp: upsert_def Let_def)
  then have "trace w' = trace w @ [] \<and> retried env (length (requests w)) []" by simp
  then show ?thesis unfolding retry_rel_def by blast
next
  case True
  have "ensures (retry_rel env) (upsert env issue)"
    by (rule ensures_upsert_via [OF frame_retried _ _ True])
       (simp_all add: allows_retried ensures_retried_notionWrite)
  from ensuresD [OF this assms] show ?thesis .
qed

lemma retry_rel_summary: "retry_rel env (w\<lparr>summary := s\<rparr>) w' = retry_rel env w w'"
  "retry_rel env w (w'\<lparr>summary := s\<rparr>) = retry_rel env w w'"
  by (simp_all add: retry_rel_def)

lemma loop_body_retried:
  assumes "loop_body env issue w = Some w'"
  shows "retry_rel env w w'"
proof -
  let ?w0 = "w\<lparr>summary := (summary w)\<lparr>processed := processed (summary w) + 1\<rparr>\<rparr>"
  from assms obtain r w1 s where run: "upsert env issue ?w0 = Some (r, w1)"
    and w': "w' = sleep 200 (w1\<lparr>summary := s\<rparr>)"
    by (auto simp: loop_body_def Let_def split: option.splits sum.splits error.splits if_splits)
       (metis world.update_convs(5) world.surjective)+
  from upsert_retried [OF run] have 1: "retry_rel env w (w1\<lparr>summary := s\<rparr>)"
    by (simp add: retry_rel_summary)
  have 2: "retry_rel env (w1\<lparr>summary := s\<rparr>) (sleep 200 (w1\<lparr>summary := s\<rparr>))"
    using frame_retried by (rule frame_sleep)
  from 1 2 w' show ?thesis using frame_retried frame_trans by blast
qed

lemma for_each_retried:
  "for_each env issues w = Some w' \<Longrightarrow> retry_rel env w w'"
proof (induction issues arbitrary: w)
  case Nil
  then show ?case using frame_retried by (simp add: frame_refl)
next
  case (Cons issue rest)
  from Cons.prems obtain w1 where b: "loop_body env issue w = Some w1"
    and r: "for_each env rest w1 = Some w'"
    by (auto split: option.splits)
  from loop_body_retried [OF b] Cons.IH [OF r] show ?case
    using frame_retried frame_trans by blast
qed

lemma retry_rel_events: "retry_rel env w w' \<Longrightarrow> retried env (length (requests w)) (events w w')"
  by (auto simp: retry_rel_def events_def)


subsection \<open>Writes under rate limiting\<close>

lemma lenient_mono:
  "lenient env w \<Longrightarrow> length (requests w) \<le> length (requests w') \<Longrightarrow> lenient env w'"
  unfolding lenient_def by (meson le_trans)

lemma notionWrite_lenient:
  assumes "lenient env w"
  shows "\<exists>n. (\<forall>i<n. fst (respond env (length (requests w) + i)) = 429)
     \<and> notionWrite env req w =
         Some (Inr (fst (serve req w)),
               (snd (serve req w))\<lparr>trace := trace w @ retries n req @ [Sent req]\<rparr>)"
proof -
  let ?P = "\<lambda>n. fst (respond env (length (requests w) + n)) \<noteq> 429"
  from assms obtain j where "length (requests w) \<le> j" "fst (respond env j) \<noteq> 429"
    unfolding lenient_def by blast
  then have "?P (j - length (requests w))" by simp
  then have ex: "\<exists>n. ?P n" by blast
  define n where "n = (LEAST n. ?P n)"
  from LeastI_ex [OF ex] have pn: "?P n" unfolding n_def .
  have before: "\<forall>i<n. fst (respond env (length (requests w) + i)) = 429"
    using not_less_Least [of _ ?P] unfolding n_def by blast
  from assms have "fst (respond env (length (requests w) + n)) = 429
      \<or> (200 \<le> fst (respond env (length (requests w) + n))
          \<and> fst (respond env (length (requests w) + n)) \<le> 299)"
    unfolding lenient_def by simp
  with pn have "200 \<le> fst (respond env (length (requests w) + n))"
    and "fst (respond env (length (requests w) + n)) \<le> 299" by simp_all
  from notionWrite_success_once [OF before this, of req] before show ?thesis by blast
qed

lemma notionWrite_lenient_after:
  assumes "lenient env w"
  shows "\<exists>b w'. notionWrite env req w = Some (Inr b, w') \<and> b = fst (serve req w) \<and> lenient env w'"
proof -
  from notionWrite_lenient [OF assms, of req] obtain n
    where nw: "notionWrite env req w =
         Some (Inr (fst (serve req w)),
               (snd (serve req w))\<lparr>trace := trace w @ retries n req @ [Sent req]\<rparr>)" by blast
  have "length (requests w)
      \<le> length (requests ((snd (serve req w))\<lparr>trace := trace w @ retries n req @ [Sent req]\<rparr>))"
    by simp
  from lenient_mono [OF assms this] nw show ?thesis by blast
qed

lemma write_page_lenient:
  assumes "lenient env w"
  shows "\<exists>pid w'. write_page env props existing w
            = Some (Inr (pid, if existing = None then Created else Updated), w')
     \<and> lenient env w'"
proof (cases existing)
  case None
  from notionWrite_lenient_after [OF assms, of "CreatePage props"] obtain b w'
    where "notionWrite env (CreatePage props) w = Some (Inr b, w')" "lenient env w'" by blast
  with None show ?thesis by (auto simp: write_page_def await_def return_val_def)
next
  case (Some pid)
  from notionWrite_lenient_after [OF assms, of "PatchPage (Some pid) props"] obtain b w'
    where "notionWrite env (PatchPage (Some pid) props) w = Some (Inr b, w')" "lenient env w'"
    by blast
  with Some show ?thesis by (auto simp: write_page_def await_def return_val_def)
qed

lemma finish_lenient:
  assumes "lenient env w"
  shows "\<exists>w'. finish env issue pageId action w = Some (Inr (action, pageId), w')"
proof -
  let ?c = "cycleVal (mapExtras (js env) (issue_labels issue) (or_else (cycle_name issue) []))"
  have "\<exists>w1. appendSyncComment env pageId issue ?c w = Some (Inr (), w1) \<and> lenient env w1"
  proof -
    let ?req = "AppendChildren pageId
                 [makeLine ''Last synced: '' (format_ts (clock env (length (trace w))) @ newline) True,
                  makeLine ''Linear State: '' (or_else (state_name issue) ''N/A'' @ newline) False,
                  makeLine ''Priority: ''
                    ((case priority issue of JNull \<Rightarrow> ''N/A'' | v \<Rightarrow> String_value (js env) v)
                       @ newline) False,
                  makeLine ''Cycle: '' (or_else (Some ?c) ''N/A'') False]"
    from notionWrite_lenient_after [OF assms, of ?req] obtain b w1
      where "notionWrite env ?req w = Some (Inr b, w1)" "lenient env w1" by blast
    then show ?thesis
      by (auto simp: appendSyncComment_def Let_def await_def return_val_def)
  qed
  then obtain w1 where c: "appendSyncComment env pageId issue ?c w = Some (Inr (), w1)"
    and l1: "lenient env w1" by blast
  let ?last = "PatchPage pageId
                 [(''Last Sync'', Date (clock env (length (trace w1))) (Some ''Europe/Berlin''))]"
  from notionWrite_lenient_after [OF l1, of ?last] obtain b w2
    where l: "notionWrite env ?last w1 = Some (Inr b, w2)" by blast
  from c l show ?thesis
    by (simp add: finish_def await_def nowISO_def return_val_def)
qed

lemma upsert_lenient:
  assumes lab: "hasRequired env (issue_labels issue)"
    and prep: "prepare env issue w = Some (Inr props, wa)"
    and look: "findPageByIssueId env (issue_identifier issue) wa = (Inr existing, wl)"
    and len: "lenient env wl"
  shows "\<exists>p w'. upsert env issue w
           = Some (Inr (if existing = None then Created else Updated, p), w')"
proof -
  from write_page_lenient [OF len, of props existing] obtain pid wb
    where wr: "write_page env props existing wl
            = Some (Inr (pid, if existing = None then Created else Updated), wb)"
      and lb: "lenient env wb" by blast
  from finish_lenient [OF lb, of issue pid "if existing = None then Created else Updated"]
  obtain w' where "finish env issue pid (if existing = None then Created else Updated) wb
      = Some (Inr (if existing = None then Created else Updated, pid), w')" by blast
  with prep look wr show ?thesis
    unfolding upsert_phases [OF lab] by (simp add: await_def total_def)
qed

lemma loop_body_lenient:
  assumes lab: "hasRequired env (issue_labels issue)"
    and prep: "prepare env issue (w\<lparr>summary := (summary w)\<lparr>processed := processed (summary w) + 1\<rparr>\<rparr>)
                 = Some (Inr props, wa)"
    and look: "findPageByIssueId env (issue_identifier issue) wa = (Inr existing, wl)"
    and len: "lenient env wl"
  shows "\<exists>w2. loop_body env issue w = Some w2
     \<and> errors (summary w2) = errors (summary w)
     \<and> skippedNoLabel (summary w2) = skippedNoLabel (summary w)
     \<and> created (summary w2) = created (summary w) + (if existing = None then 1 else 0)
     \<and> updated (summary w2) = updated (summary w) + (if existing = None then 0 else 1)
     \<and> page_ids w2
         = page_ids w @ (if existing = None then [Some (issue_identifier issue)] else [])"
proof -
  let ?w0 = "w\<lparr>summary := (summary w)\<lparr>processed := processed (summary w) + 1\<rparr>\<rparr>"
  let ?a = "if existing = None then Created else Updated"
  from upsert_lenient [OF lab prep look len] obtain p w1
    where run: "upsert env issue ?w0 = Some (Inr (?a, p), w1)" by blast
  from upsert_summary [OF lab run]
  have s: "summary w1 = (summary w)\<lparr>processed := processed (summary w) + 1\<rparr>" by simp
  from upsert_ids [OF lab run, unfolded page_ids_summary has_page_summary]
  have ids: "page_ids w1
      = page_ids w @ (if existing = None then [Some (issue_identifier issue)] else [])"
    by (cases existing) auto
  show ?thesis
  proof (cases existing)
    case None
    with run have "loop_body env issue w
        = Some (sleep 200 (w1\<lparr>summary := (summary w1)
                       \<lparr>created := created (summary w1) + 1,
                        items := items (summary w1)
                          @ [''Created: '' @ issue_identifier issue @ dash @ template (title issue)]\<rparr>\<rparr>))"
      by (simp add: loop_body_def Let_def)
    with None s ids show ?thesis by (simp add: page_ids_sleep page_ids_summary)
  next
    case (Some pid)
    with run have "loop_body env issue w
        = Some (sleep 200 (w1\<lparr>summary := (summary w1)
                       \<lparr>updated := updated (summary w1) + 1,
                        items := items (summary w1)
                          @ [''Updated: '' @ issue_identifier issue @ dash @ template (title issue)]\<rparr>\<rparr>))"
      by (simp add: loop_body_def Let_def)
    with Some s ids show ?thesis by (simp add: page_ids_sleep page_ids_summary)
  qed
qed


lemma main_retried:
  assumes "main env feed w = Some out"
  shows "retried env (length (requests w)) (events w (final_world out))"
  using for_each_retried [OF main_for_each [OF assms]] by (rule retry_rel_events)

text \<open>
  C4 (as amended): the writes to a page (create, update, comment, final timestamp) go
  through \<open>notionWrite\<close>. A request that \<open>notionWrite\<close> sends and that is answered 429
  is sent again after a pause of 500 milliseconds, as often as 429 comes back: after
  any number \<open>n\<close> of such answers followed by another answer, \<open>notionWrite\<close> returns
  what the last exchange alone gives, its trace being \<open>n\<close> times the request and the
  pause, and then the request; when the last answer is a success the destination has
  served the request exactly once; and when every answer is 429 it never returns. In
  every upsert and in every run that returns, each write to a page that was answered
  429 is followed by the pause and by the same request. When the preparation and the
  lookup of a labelled record have returned and the destination answers from then on
  with successes and with 429, but not with 429 for ever, the iteration returns, and
  the record is counted exactly once: as created, with exactly one page added, when the
  lookup found no page, and as updated, with no page added, when it found one.
  Whatever the destination answers, an iteration raises the created and updated
  counters by at most one in total and adds at most one page. The schema mutation is
  not sent through \<open>notionWrite\<close>: answered 429, it is not sent again, and
  \<open>ensureSelectOption\<close> throws.
\<close>

theorem notionWrite_retry:
  "((\<forall>i<n. fst (respond env (length (requests w) + i)) = 429)
      \<and> fst (respond env (length (requests w) + n)) \<noteq> 429 \<longrightarrow>
      notionWrite env req w =
        (case fetch env req (w\<lparr>trace := trace w @ retries n req\<rparr>) of
           (resp, w') \<Rightarrow>
             Some (if ok resp then Inr (json resp)
                   else Inl (Error (method_of req @ '' '' @ endpoint_of req @ '' failed ''
                           @ string_of_nat (status resp) @ '': '' @ err_text resp)),
                   w')))
   \<and> ((\<forall>i<n. fst (respond env (length (requests w) + i)) = 429)
        \<and> 200 \<le> fst (respond env (length (requests w) + n))
        \<and> fst (respond env (length (requests w) + n)) \<le> 299 \<longrightarrow>
        notionWrite env req w =
          Some (Inr (fst (serve req w)),
                (snd (serve req w))\<lparr>trace := trace w @ retries n req @ [Sent req]\<rparr>))
   \<and> ((\<forall>i. fst (respond env (length (requests w) + i)) = 429) \<longrightarrow>
        notionWrite env req w = None)
   \<and> (upsert env issue w = Some (r, w') \<longrightarrow>
        trace w' = trace w @ events w w' \<and> retried env (length (requests w)) (events w w'))
   \<and> (main env feed w = Some out \<longrightarrow>
        retried env (length (requests w)) (events w (final_world out)))
   \<and> (hasRequired env (issue_labels issue)
        \<and> prepare env issue (w\<lparr>summary := (summary w)\<lparr>processed := processed (summary w) + 1\<rparr>\<rparr>)
            = Some (Inr props, wa)
        \<and> findPageByIssueId env (issue_identifier issue) wa = (Inr existing, wl)
        \<and> lenient env wl \<longrightarrow>
        (\<exists>wf. loop_body env issue w = Some wf
           \<and> errors (summary wf) = errors (summary w)
           \<and> skippedNoLabel (summary wf) = skippedNoLabel (summary w)
           \<and> created (summary wf) = created (summary w) + (if existing = None then 1 else 0)
           \<and> updated (summary wf) = updated (summary w) + (if existing = None then 0 else 1)
           \<and> page_ids wf
               = page_ids w @ (if existing = None then [Some (issue_identifier issue)] else [])))
   \<and> (loop_body env issue w = Some w2 \<longrightarrow>
        created (summary w2) + updated (summary w2)
          \<le> created (summary w) + updated (summary w) + 1
        \<and> length (db_pages w2) \<le> length (db_pages w) + 1)
   \<and> (normalizeOptionName (js env) raw = Some opt \<and> opt \<noteq> []
        \<and> getDatabase env w = (Inr db, w1)
        \<and> \<not> nothing_to_add (js env) db pname opt \<and> map_of db pname = Some pd
        \<and> fst (respond env (length (requests w1))) = 429 \<longrightarrow>
        ensureSelectOption env pname raw w =
          (Inl (schema_error opt pname (respond env (length (requests w1)))),
           w1\<lparr>trace := trace w1 @ [Sent (PatchDatabase pname (ptype pd) (poptions pd @ [opt]))]\<rparr>))"
proof (intro conjI impI)
  assume "(\<forall>i<n. fst (respond env (length (requests w) + i)) = 429)
      \<and> fst (respond env (length (requests w) + n)) \<noteq> 429"
  then show "notionWrite env req w =
        (case fetch env req (w\<lparr>trace := trace w @ retries n req\<rparr>) of
           (resp, w') \<Rightarrow>
             Some (if ok resp then Inr (json resp)
                   else Inl (Error (method_of req @ '' '' @ endpoint_of req @ '' failed ''
                           @ string_of_nat (status resp) @ '': '' @ err_text resp)),
                   w'))"
    using notionWrite_after_retries [of n env w req] by blast
next
  assume "(\<forall>i<n. fst (respond env (length (requests w) + i)) = 429)
        \<and> 200 \<le> fst (respond env (length (requests w) + n))
        \<and> fst (respond env (length (requests w) + n)) \<le> 299"
  then show "notionWrite env req w =
          Some (Inr (fst (serve req w)),
                (snd (serve req w))\<lparr>trace := trace w @ retries n req @ [Sent req]\<rparr>)"
    using notionWrite_success_once [of n env w req] by blast
next
  assume "\<forall>i. fst (respond env (length (requests w) + i)) = 429"
  then show "notionWrite env req w = None" by (rule notionWrite_diverges)
next
  assume run: "upsert env issue w = Some (r, w')"
  from upsert_retried [OF run] show "trace w' = trace w @ events w w'"
    by (auto simp: retry_rel_def events_def)
  from upsert_retried [OF run] show "retried env (length (requests w)) (events w w')"
    by (rule retry_rel_events)
next
  assume "main env feed w = Some out"
  then show "retried env (length (requests w)) (events w (final_world out))"
    by (rule main_retried)
next
  assume "hasRequired env (issue_labels issue)
        \<and> prepare env issue (w\<lparr>summary := (summary w)\<lparr>processed := processed (summary w) + 1\<rparr>\<rparr>)
            = Some (Inr props, wa)
        \<and> findPageByIssueId env (issue_identifier issue) wa = (Inr existing, wl)
        \<and> lenient env wl"
  then show "\<exists>wf. loop_body env issue w = Some wf
           \<and> errors (summary wf) = errors (summary w)
           \<and> skippedNoLabel (summary wf) = skippedNoLabel (summary w)
           \<and> created (summary wf) = created (summary w) + (if existing = None then 1 else 0)
           \<and> updated (summary wf) = updated (summary w) + (if existing = None then 0 else 1)
           \<and> page_ids wf
               = page_ids w @ (if existing = None then [Some (issue_identifier issue)] else [])"
    using loop_body_lenient [of env issue w props wa existing wl] by blast
next
  assume b: "loop_body env issue w = Some w2"
  from loop_body_once [OF b]
  show "created (summary w2) + updated (summary w2)
          \<le> created (summary w) + updated (summary w) + 1"
    and "length (db_pages w2) \<le> length (db_pages w) + 1" by simp_all
next
  assume a: "normalizeOptionName (js env) raw = Some opt \<and> opt \<noteq> []
        \<and> getDatabase env w = (Inr db, w1)
        \<and> \<not> nothing_to_add (js env) db pname opt \<and> map_of db pname = Some pd
        \<and> fst (respond env (length (requests w1))) = 429"
  then have "\<not> (200 \<le> fst (respond env (length (requests w1)))
                \<and> fst (respond env (length (requests w1))) \<le> 299)" by simp
  with a show "ensureSelectOption env pname raw w =
          (Inl (schema_error opt pname (respond env (length (requests w1)))),
           w1\<lparr>trace := trace w1 @ [Sent (PatchDatabase pname (ptype pd) (poptions pd @ [opt]))]\<rparr>)"
    using ensureSelectOption_rejected [of env raw opt w db w1 pname pd] by blast
qed

lemma rate_limited_phases:
  "(case prepare rate_limited_env example_issue
           ((start example_db [])\<lparr>summary := (summary (start example_db []))
               \<lparr>processed := processed (summary (start example_db [])) + 1\<rparr>\<rparr>) of
      Some (Inr props, wa) \<Rightarrow>
        (case findPageByIssueId rate_limited_env (issue_identifier example_issue) wa of
           (Inr None, wl) \<Rightarrow> True
         | _ \<Rightarrow> False)
    | _ \<Rightarrow> False)"
  by code_simp

lemma rate_limited_phases_ex:
  "\<exists>props wa wl.
      prepare rate_limited_env example_issue
           ((start example_db [])\<lparr>summary := (summary (start example_db []))
               \<lparr>processed := processed (summary (start example_db [])) + 1\<rparr>\<rparr>)
        = Some (Inr props, wa)
      \<and> findPageByIssueId rate_limited_env (issue_identifier example_issue) wa = (Inr None, wl)"
proof -
  let ?w0 = "(start example_db [])\<lparr>summary := (summary (start example_db []))
               \<lparr>processed := processed (summary (start example_db [])) + 1\<rparr>\<rparr>"
  note ph = rate_limited_phases
  show ?thesis
  proof (cases "prepare rate_limited_env example_issue ?w0")
    case None
    with ph show ?thesis by simp
  next
    case (Some y)
    obtain r wa where y: "y = (r, wa)" by (cases y)
    show ?thesis
    proof (cases r)
      case (Inl e)
      with Some y ph show ?thesis by simp
    next
      case (Inr props)
      obtain r2 wl
        where f: "findPageByIssueId rate_limited_env (issue_identifier example_issue) wa = (r2, wl)"
        by (cases "findPageByIssueId rate_limited_env (issue_identifier example_issue) wa")
      with Some y Inr ph have "r2 = Inr None"
        by (auto split: sum.splits option.splits)
      with Some y Inr f show ?thesis by simp
    qed
  qed
qed

lemma lenient_rate_limited: "lenient rate_limited_env w"
  unfolding lenient_def
proof (intro conjI allI impI)
  fix k
  show "fst (respond rate_limited_env k) = 429
      \<or> (200 \<le> fst (respond rate_limited_env k) \<and> fst (respond rate_limited_env k) \<le> 299)"
    by (simp add: rate_limited_env_def)
  have "k \<le> k + 8 \<and> fst (respond rate_limited_env (k + 8)) \<noteq> 429"
    by (simp add: rate_limited_env_def)
  then show "\<exists>j\<ge>k. fst (respond rate_limited_env j) \<noteq> 429" by blast
qed

lemma rate_limited_labelled: "hasRequired rate_limited_env (issue_labels example_issue)"
  by code_simp

lemma rate_limited_upsert_returns:
  "upsert rate_limited_env example_issue (start example_db []) \<noteq> None"
  by code_simp

lemma schema_limited_facts:
  "normalizeOptionName (js schema_limited_env) (JStr ''In Progress'') = Some ''In Progress''
   \<and> getDatabase schema_limited_env (start example_db [])
       = (Inr example_db,
          (start example_db [])\<lparr>trace := [Sent GetDatabase], dbSchemaCache := Some example_db\<rparr>)
   \<and> \<not> nothing_to_add (js schema_limited_env) example_db ''Status'' ''In Progress''
   \<and> map_of example_db ''Status'' = Some \<lparr>ptype = ''select'', poptions = [''Todo'']\<rparr>"
  by code_simp

theorem notionWrite_retry_witness:
  "notionWrite twice_limited_env (CreatePage []) (start example_db [])
     = Some (Inr (BPage 0),
             (start example_db [])
               \<lparr>db_pages := [\<lparr>page_props = [], page_children = []\<rparr>],
                trace := [Sent (CreatePage []), Slept 500, Sent (CreatePage []), Slept 500,
                          Sent (CreatePage [])]\<rparr>)
   \<and> notionWrite always_limited_env (CreatePage []) (start example_db []) = None
   \<and> retried rate_limited_env 0
       (events (start example_db [])
          (snd (the (upsert rate_limited_env example_issue (start example_db [])))))
   \<and> (\<exists>wf. loop_body rate_limited_env example_issue (start example_db []) = Some wf
         \<and> created (summary wf) = 1 \<and> updated (summary wf) = 0 \<and> errors (summary wf) = 0
         \<and> page_ids wf = [Some ''ENG-1''])
   \<and> ensureSelectOption schema_limited_env ''Status'' (JStr ''In Progress'') (start example_db [])
       = (Inl (schema_error ''In Progress'' ''Status'' (429, ''slow down'')),
          (start example_db [])
            \<lparr>trace := [Sent GetDatabase,
                       Sent (PatchDatabase ''Status'' ''select'' [''Todo'', ''In Progress''])],
             dbSchemaCache := Some example_db\<rparr>)"
proof -
  let ?w = "start example_db []"
  note once = notionWrite_retry [THEN conjunct2, THEN conjunct1, THEN mp]
  note never = notionWrite_retry [THEN conjunct2, THEN conjunct2, THEN conjunct1, THEN mp]
  note disc = notionWrite_retry [THEN conjunct2, THEN conjunct2, THEN conjunct2, THEN conjunct1, THEN mp]
  note count = notionWrite_retry [THEN conjunct2, THEN conjunct2, THEN conjunct2, THEN conjunct2,
      THEN conjunct2, THEN conjunct1, THEN mp]
  note schema = notionWrite_retry [THEN conjunct2, THEN conjunct2, THEN conjunct2, THEN conjunct2,
      THEN conjunct2, THEN conjunct2, THEN conjunct2, THEN mp]
  have "(\<forall>i<Suc (Suc 0). fst (respond twice_limited_env (length (requests ?w) + i)) = 429)
      \<and> 200 \<le> fst (respond twice_limited_env (length (requests ?w) + Suc (Suc 0)))
      \<and> fst (respond twice_limited_env (length (requests ?w) + Suc (Suc 0))) \<le> 299"
    by (simp add: twice_limited_env_def start_def requests_def All_less_Suc)
  from once [OF this, of "CreatePage []"]
  have 1: "notionWrite twice_limited_env (CreatePage []) ?w
     = Some (Inr (BPage 0),
             ?w\<lparr>db_pages := [\<lparr>page_props = [], page_children = []\<rparr>],
                trace := [Sent (CreatePage []), Slept 500, Sent (CreatePage []), Slept 500,
                          Sent (CreatePage [])]\<rparr>)"
    by (simp add: start_def serve_def)
  have "\<forall>i. fst (respond always_limited_env (length (requests ?w) + i)) = 429"
    by (simp add: always_limited_env_def)
  from never [OF this] have 2: "notionWrite always_limited_env (CreatePage []) ?w = None" .
  from rate_limited_upsert_returns
  have run: "upsert rate_limited_env example_issue ?w
      = Some (fst (the (upsert rate_limited_env example_issue ?w)),
              snd (the (upsert rate_limited_env example_issue ?w)))" by auto
  from disc [OF run]
  have 3: "retried rate_limited_env 0
       (events ?w (snd (the (upsert rate_limited_env example_issue ?w))))"
    by (simp add: start_def requests_def)
  from rate_limited_phases_ex obtain props wa wl
    where "prepare rate_limited_env example_issue
             (?w\<lparr>summary := (summary ?w)\<lparr>processed := processed (summary ?w) + 1\<rparr>\<rparr>)
           = Some (Inr props, wa)"
      and "findPageByIssueId rate_limited_env (issue_identifier example_issue) wa = (Inr None, wl)"
    by blast
  with rate_limited_labelled lenient_rate_limited [of wl]
  have "hasRequired rate_limited_env (issue_labels example_issue)
        \<and> prepare rate_limited_env example_issue
            (?w\<lparr>summary := (summary ?w)\<lparr>processed := processed (summary ?w) + 1\<rparr>\<rparr>)
            = Some (Inr props, wa)
        \<and> findPageByIssueId rate_limited_env (issue_identifier example_issue) wa = (Inr None, wl)
        \<and> lenient rate_limited_env wl" by simp
  from count [OF this]
  have 4: "\<exists>wf. loop_body rate_limited_env example_issue ?w = Some wf
         \<and> created (summary wf) = 1 \<and> updated (summary wf) = 0 \<and> errors (summary wf) = 0
         \<and> page_ids wf = [Some ''ENG-1'']"
    by (auto simp: start_def summary0_def page_ids_def example_issue_def)
  from schema_limited_facts
  have "normalizeOptionName (js schema_limited_env) (JStr ''In Progress'') = Some ''In Progress''
        \<and> ''In Progress'' \<noteq> []
        \<and> getDatabase schema_limited_env ?w
            = (Inr example_db, ?w\<lparr>trace := [Sent GetDatabase], dbSchemaCache := Some example_db\<rparr>)
        \<and> \<not> nothing_to_add (js schema_limited_env) example_db ''Status'' ''In Progress''
        \<and> map_of example_db ''Status'' = Some \<lparr>ptype = ''select'', poptions = [''Todo'']\<rparr>
        \<and> fst (respond schema_limited_env
                 (length (requests (?w\<lparr>trace := [Sent GetDatabase],
                                       dbSchemaCache := Some example_db\<rparr>)))) = 429"
    by (simp add: schema_limited_env_def)
  from schema [OF this]
  have 5: "ensureSelectOption schema_limited_env ''Status'' (JStr ''In Progress'') ?w
       = (Inl (schema_error ''In Progress'' ''Status'' (429, ''slow down'')),
          ?w\<lparr>trace := [Sent GetDatabase,
                       Sent (PatchDatabase ''Status'' ''select'' [''Todo'', ''In Progress''])],
             dbSchemaCache := Some example_db\<rparr>)"
    by (simp add: schema_limited_env_def)
  from 1 2 3 4 5 show ?thesis by (intro conjI)
qed

text \<open>
  A destination write that is not retried: in the run of the example record over a
  destination that answers the schema mutation with 429, the mutation is sent once,
  nothing is sent after it, no pause of 500 milliseconds is made, and the record is
  counted as an error, neither created nor updated.
\<close>

theorem notionWrite_retry_counterexample:
  "fst (respond schema_limited_env 1) = 429
   \<and> trace (the (loop_body schema_limited_env example_issue (start example_db [])))
       = [Sent GetDatabase,
          Sent (PatchDatabase ''Status'' ''select'' [''Todo'', ''In Progress'']),
          Slept 200]
   \<and> errors (summary (the (loop_body schema_limited_env example_issue (start example_db [])))) = 1
   \<and> created (summary (the (loop_body schema_limited_env example_issue (start example_db [])))) = 0
   \<and> updated (summary (the (loop_body schema_limited_env example_issue (start example_db [])))) = 0"
  by code_simp

end
